theory Spec2Isabelle
  imports Complex_Main "HOL-Library.Multiset"
begin

section \<open>Numbers of the host language\<close>

text \<open>
  A JavaScript number is a finite double, one of the two infinities, or NaN.  A finite
  double is modelled by the real number it denotes (the two zeros are one value), so
  comparisons are those of the reals.  Arithmetic computes the exact result and rounds
  it to the nearest double, ties to the even significand, as the host does.
\<close>

datatype jsnum = Fin real | PInf | NInf | NaN

text \<open>\<open>a <= b\<close> on numbers: false as soon as one side is NaN.\<close>

fun num_le :: "jsnum \<Rightarrow> jsnum \<Rightarrow> bool" where
  "num_le NaN b = False"
| "num_le a NaN = False"
| "num_le NInf b = True"
| "num_le a PInf = True"
| "num_le (Fin a) (Fin b) = (a \<le> b)"
| "num_le PInf b = False"
| "num_le a NInf = False"

text \<open>\<open>a === b\<close> on numbers: NaN is not equal to anything, itself included.\<close>

definition num_strict_eq :: "jsnum \<Rightarrow> jsnum \<Rightarrow> bool" where
  "num_strict_eq a b = (a \<noteq> NaN \<and> b \<noteq> NaN \<and> a = b)"

fun num_neg :: "jsnum \<Rightarrow> jsnum" where
  "num_neg (Fin a) = Fin (- a)"
| "num_neg PInf = NInf"
| "num_neg NInf = PInf"
| "num_neg NaN = NaN"

text \<open>
  Rounding to a double.  \<open>binade x\<close> is the exponent \<open>e\<close> with \<open>2^e <= x < 2^(e+1)\<close>,
  found by counting up from \<open>0\<close> or down from \<open>-1\<close> and kept between \<open>-1022\<close> (below
  it the doubles are subnormal and keep that exponent) and \<open>1024\<close>.  A double of that
  binade is a multiple of \<open>2^(e-52)\<close>; the exact value is rounded to the nearest multiple,
  a tie going to the even one, and a result of \<open>2^1024\<close> or more (one whose exponent is
  \<open>1024\<close>) is infinite.
\<close>

definition pow2 :: "int \<Rightarrow> real" where
  "pow2 e = (if 0 \<le> e then 2 ^ nat e else 1 / 2 ^ nat (- e))"

fun exponent_up :: "nat \<Rightarrow> int \<Rightarrow> real \<Rightarrow> int" where
  "exponent_up 0 e x = e"
| "exponent_up (Suc n) e x = (if pow2 (e + 1) \<le> x then exponent_up n (e + 1) x else e)"

fun exponent_down :: "nat \<Rightarrow> int \<Rightarrow> real \<Rightarrow> int" where
  "exponent_down 0 e x = e"
| "exponent_down (Suc n) e x = (if pow2 e \<le> x then e else exponent_down n (e - 1) x)"

definition binade :: "real \<Rightarrow> int" where
  "binade x = (if 1 \<le> x then exponent_up 1024 0 x else exponent_down 1021 (- 1) x)"

definition round_half_even :: "real \<Rightarrow> int" where
  "round_half_even q =
     (let f = \<lfloor>q\<rfloor>; r = q - real_of_int f
      in if r < 1 / 2 then f else if 1 / 2 < r then f + 1 else if even f then f else f + 1)"

definition round_positive :: "real \<Rightarrow> jsnum" where
  "round_positive x =
     (let ulp = pow2 (binade x - 52);
          y = real_of_int (round_half_even (x / ulp)) * ulp
      in if 1024 \<le> binade y then PInf else Fin y)"

definition round_double :: "real \<Rightarrow> jsnum" where
  "round_double x =
     (if x = 0 then Fin 0
      else if 0 < x then round_positive x
      else num_neg (round_positive (- x)))"

fun num_add :: "jsnum \<Rightarrow> jsnum \<Rightarrow> jsnum" where
  "num_add NaN b = NaN"
| "num_add a NaN = NaN"
| "num_add (Fin a) (Fin b) = round_double (a + b)"
| "num_add PInf NInf = NaN"
| "num_add NInf PInf = NaN"
| "num_add PInf b = PInf"
| "num_add NInf b = NInf"
| "num_add a PInf = PInf"
| "num_add a NInf = NInf"

definition num_sub :: "jsnum \<Rightarrow> jsnum \<Rightarrow> jsnum" where
  "num_sub a b = num_add a (num_neg b)"

text \<open>The sign of a non-NaN number: \<open>-1\<close>, \<open>0\<close> or \<open>1\<close>.\<close>

fun num_sgn :: "jsnum \<Rightarrow> real" where
  "num_sgn (Fin a) = sgn a"
| "num_sgn PInf = 1"
| "num_sgn NInf = - 1"
| "num_sgn NaN = 0"

definition inf_of_sgn :: "real \<Rightarrow> jsnum" where
  "inf_of_sgn s = (if s = 0 then NaN else if 0 < s then PInf else NInf)"

fun num_mul :: "jsnum \<Rightarrow> jsnum \<Rightarrow> jsnum" where
  "num_mul NaN b = NaN"
| "num_mul a NaN = NaN"
| "num_mul (Fin a) (Fin b) = round_double (a * b)"
| "num_mul a b = inf_of_sgn (num_sgn a * num_sgn b)"

text \<open>
  Division.  A zero divisor is taken as the positive zero; the resolver below only
  divides by the difference of two numbers that are not equal.
\<close>

fun num_div :: "jsnum \<Rightarrow> jsnum \<Rightarrow> jsnum" where
  "num_div NaN b = NaN"
| "num_div a NaN = NaN"
| "num_div (Fin a) (Fin b) = (if b = 0 then inf_of_sgn (sgn a) else round_double (a / b))"
| "num_div (Fin a) b = Fin 0"
| "num_div a (Fin b) = inf_of_sgn (num_sgn a * (if b < 0 then - 1 else 1))"
| "num_div a b = NaN"

section \<open>Values and objects\<close>

text \<open>
  An object has a prototype, the flag that \<open>Array.isArray\<close> reads, and its own
  properties in enumeration order (the host puts array indices first, in ascending
  order, then the other keys as they were created), each with its \<open>enumerable\<close>
  attribute.  The keys of one object are pairwise distinct, the properties are data
  properties that can be written, and properties can be added.

  A prototype is \<open>Object.prototype\<close>, \<open>Array.prototype\<close>, the prototype of a class
  given by its name, \<open>null\<close> (as after \<open>Object.create(null)\<close>), or an object given as a
  value, as the \<open>__proto__\<close> setter installs one.  The three named prototypes are taken
  to provide the \<open>hasOwnProperty\<close> and the \<open>__proto__\<close> accessor of
  \<open>Object.prototype\<close> and no other property that is read, written or enumerated here; a
  prototype is identified by what is recorded of it.  A function value is the index of
  a function of the caller, and carries no property that is read or enumerated here.
\<close>

datatype proto =
    ObjectPrototype
  | ArrayPrototype
  | ClassPrototype string
  | NullPrototype
  | ValuePrototype jsval
and jsval =
    Undefined
  | Null
  | Bool bool
  | Num jsnum
  | Str string
  | Func nat
  | Obj proto bool "(string \<times> bool \<times> jsval) list"

type_synonym props = "(string \<times> bool \<times> jsval) list"

fun typeof :: "jsval \<Rightarrow> string" where
  "typeof Undefined = ''undefined''"
| "typeof Null = ''object''"
| "typeof (Bool b) = ''boolean''"
| "typeof (Num n) = ''number''"
| "typeof (Str s) = ''string''"
| "typeof (Func f) = ''function''"
| "typeof (Obj p a ps) = ''object''"

fun Array_isArray :: "jsval \<Rightarrow> bool" where
  "Array_isArray (Obj p a ps) = a"
| "Array_isArray v = False"

text \<open>The conversion to boolean of \<open>||\<close>, \<open>!\<close> and \<open>if\<close>.\<close>

fun truthy :: "jsval \<Rightarrow> bool" where
  "truthy Undefined = False"
| "truthy Null = False"
| "truthy (Bool b) = b"
| "truthy (Num n) = (n \<noteq> NaN \<and> n \<noteq> Fin 0)"
| "truthy (Str s) = (s \<noteq> [])"
| "truthy (Func f) = True"
| "truthy (Obj p a ps) = True"

text \<open>\<open>Object.keys\<close>: the own enumerable keys, in enumeration order.\<close>

definition own_keys :: "props \<Rightarrow> string list" where
  "own_keys ps = map fst (filter (\<lambda>(k, e, v). e) ps)"

fun Object_keys :: "jsval \<Rightarrow> string list" where
  "Object_keys (Obj p a ps) = own_keys ps"
| "Object_keys v = []"

text \<open>
  The built-in \<open>hasOwnProperty\<close> sees every own property, enumerable or not, and
  nothing inherited.
\<close>

definition hasOwnProperty :: "props \<Rightarrow> string \<Rightarrow> bool" where
  "hasOwnProperty ps k = (map_of ps k \<noteq> None)"

text \<open>
  Looking a key up along the prototype chain: the own property first, then the
  properties of the prototypes that are given as values.  The chain of an object passes
  through \<open>Object.prototype\<close> unless it ends in \<open>null\<close> before; the chain of a
  function does.
\<close>

fun chain_lookup :: "proto \<Rightarrow> string \<Rightarrow> (bool \<times> jsval) option" where
  "chain_lookup (ValuePrototype (Obj p a ps)) k =
     (case map_of ps k of Some ev \<Rightarrow> Some ev | None \<Rightarrow> chain_lookup p k)"
| "chain_lookup p k = None"

definition lookup :: "proto \<Rightarrow> props \<Rightarrow> string \<Rightarrow> (bool \<times> jsval) option" where
  "lookup p ps k = (case map_of ps k of Some ev \<Rightarrow> Some ev | None \<Rightarrow> chain_lookup p k)"

fun inherits_Object_prototype :: "proto \<Rightarrow> bool" where
  "inherits_Object_prototype (ValuePrototype (Obj p a ps)) = inherits_Object_prototype p"
| "inherits_Object_prototype (ValuePrototype (Func f)) = True"
| "inherits_Object_prototype (ValuePrototype v) = False"
| "inherits_Object_prototype NullPrototype = False"
| "inherits_Object_prototype p = True"

text \<open>Reading \<open>o[k]\<close>: the property found along the chain, \<open>undefined\<close> when none is.\<close>

definition get_prop :: "proto \<Rightarrow> props \<Rightarrow> string \<Rightarrow> jsval" where
  "get_prop p ps k = (case lookup p ps k of None \<Rightarrow> Undefined | Some (e, v) \<Rightarrow> v)"

text \<open>
  Creating or overwriting an own property: an existing one keeps its place and its
  attribute, a new one is enumerable and comes last.
\<close>

fun set_prop :: "props \<Rightarrow> string \<Rightarrow> jsval \<Rightarrow> props" where
  "set_prop [] k v = [(k, True, v)]"
| "set_prop ((k', e, v') # ps) k v =
     (if k' = k then (k', e, v) # ps else (k', e, v') # set_prop ps k v)"

text \<open>
  The assignment \<open>o[k] = v\<close> to the object with prototype \<open>p\<close> and properties \<open>ps\<close>.
  For \<open>k = "__proto__"\<close>, when no property of that name is found along the chain and
  the chain passes through \<open>Object.prototype\<close>, the setter inherited from there runs: an
  object, a function or \<open>null\<close> becomes the prototype, any other value is ignored, and
  no property is created.  Every other assignment creates or overwrites the own property.
\<close>

definition assign :: "proto \<Rightarrow> props \<Rightarrow> string \<Rightarrow> jsval \<Rightarrow> proto \<times> props" where
  "assign p ps k v =
     (if k = ''__proto__'' \<and> lookup p ps ''__proto__'' = None \<and> inherits_Object_prototype p
      then (case v of
              Obj p' a' ps' \<Rightarrow> (ValuePrototype v, ps)
            | Func f \<Rightarrow> (ValuePrototype v, ps)
            | Null \<Rightarrow> (NullPrototype, ps)
            | _ \<Rightarrow> (p, ps))
      else (p, set_prop ps k v))"

text \<open>An array literal: indexed elements and the non-enumerable \<open>length\<close>.\<close>

fun nat_digits :: "nat \<Rightarrow> string" where
  "nat_digits n =
     (if n < 10 then [char_of (48 + n)] else nat_digits (n div 10) @ [char_of (48 + n mod 10)])"

definition array_of :: "jsval list \<Rightarrow> jsval" where
  "array_of vs =
     Obj ArrayPrototype True
       (map (\<lambda>(i, v). (nat_digits i, True, v)) (zip [0 ..< length vs] vs)
        @ [(''length'', False, Num (Fin (real (length vs))))])"

section \<open>Errors and calls\<close>

text \<open>
  The source throws strings; each constructor stands for one \<open>throw\<close> and carries the
  value the message names.  \<open>TypeError\<close> is the host's own error (calling a value that
  is not a function, taking the prototype of \<open>null\<close>); \<open>Thrown\<close> is whatever a
  function of the caller throws.
\<close>

datatype error =
    InvalidInputError
  | MissingLowerBoundError jsnum
  | MissingUpperBoundError jsnum
  | TypeMismatchError
  | StructuralMismatchError
  | InvalidOptionError string
  | InvalidFormatError string
  | TypeError
  | Thrown jsval

text \<open>
  Calling a function value: \<open>call f args\<close> runs the caller's function \<open>f\<close> and gives
  what it throws (\<open>Inl\<close>) or returns (\<open>Inr\<close>).
\<close>

definition call_function ::
  "(nat \<Rightarrow> jsval list \<Rightarrow> jsval + jsval) \<Rightarrow> nat \<Rightarrow> jsval list \<Rightarrow> error + jsval" where
  "call_function call f args = (case call f args of Inl x \<Rightarrow> Inl (Thrown x) | Inr r \<Rightarrow> Inr r)"

text \<open>A caller none of whose functions returns: each throws \<open>undefined\<close>.\<close>

definition no_calls :: "nat \<Rightarrow> jsval list \<Rightarrow> jsval + jsval" where
  "no_calls f args = Inl Undefined"

text \<open>
  The method call \<open>o.hasOwnProperty(k)\<close>, as a condition.  The method is looked up on
  \<open>o\<close>: a property of that name found along the chain is what gets called, a function
  of the caller or, for any other value, nothing (the host's \<open>TypeError\<close>); otherwise
  it is the built-in one of \<open>Object.prototype\<close>, and there is none when the chain does
  not pass through it.
\<close>

definition call_hasOwnProperty ::
  "(nat \<Rightarrow> jsval list \<Rightarrow> jsval + jsval) \<Rightarrow> proto \<Rightarrow> props \<Rightarrow> string \<Rightarrow> error + bool" where
  "call_hasOwnProperty call p ps k =
     (case lookup p ps ''hasOwnProperty'' of
        Some (e, Func f) \<Rightarrow>
          (case call_function call f [Str k] of Inl err \<Rightarrow> Inl err | Inr r \<Rightarrow> Inr (truthy r))
      | Some (e, v) \<Rightarrow> Inl TypeError
      | None \<Rightarrow>
          if inherits_Object_prototype p then Inr (hasOwnProperty ps k) else Inl TypeError)"

section \<open>The keyframe-set discriminator\<close>

text \<open>
  \<open>isKeyFrames\<close>.  The conversion \<open>+key\<close> of a key to a number is the host's; the model
  takes it as the parameter \<open>tn\<close>.  The loop compares the converted key with NaN by
  \<open>===\<close>.
\<close>

fun isKeyFrames_loop :: "(string \<Rightarrow> jsnum) \<Rightarrow> string list \<Rightarrow> bool" where
  "isKeyFrames_loop tn [] = True"
| "isKeyFrames_loop tn (key # keys) =
     (if num_strict_eq (tn key) NaN \<and> \<not> (key = ''interpolate'' \<or> key = ''interpolationKeys'')
      then False
      else isKeyFrames_loop tn keys)"

definition isKeyFrames :: "(string \<Rightarrow> jsnum) \<Rightarrow> jsval \<Rightarrow> bool" where
  "isKeyFrames tn property =
     (if (typeof property \<noteq> ''object'' \<or> property = Null) \<or> Array_isArray property then False
      else isKeyFrames_loop tn (Object_keys property))"

section \<open>Interpolators\<close>

text \<open>
  \<open>linearInterp\<close> and \<open>cosineInterp\<close>.  \<open>objectKeys\<close> is an array of strings or
  \<open>undefined\<close> (\<open>None\<close>).  The key list is \<open>Object.keys(x1) || objectKeys\<close>: the left
  operand is an array, and \<open>||\<close> converts it to boolean.  The loop over the keys is the
  second function: it calls \<open>x1.hasOwnProperty(key)\<close> and, unless that is false,
  \<open>x2.hasOwnProperty(key)\<close>, reads \<open>x1[key]\<close> and \<open>x2[key]\<close> and assigns to
  \<open>int[key]\<close>.  \<open>int_obj\<close> is the object \<open>int\<close> under construction, created by
  \<open>Object.create\<close> (an ordinary object, also when the prototype is the arrays'), as its
  prototype and its properties.  The recursive call passes no fourth argument.  \<open>call\<close>
  runs the functions of the caller, which are taken to leave the operands as they are.
  Two prototypes given as values are compared by their contents.
\<close>

function linearInterp ::
    "(nat \<Rightarrow> jsval list \<Rightarrow> jsval + jsval) \<Rightarrow> jsval \<Rightarrow> jsval \<Rightarrow> jsnum \<Rightarrow> string list option
       \<Rightarrow> error + jsval"
  and linearInterp_loop ::
    "(nat \<Rightarrow> jsval list \<Rightarrow> jsval + jsval) \<Rightarrow> proto \<Rightarrow> props \<Rightarrow> proto \<Rightarrow> props \<Rightarrow> jsnum
       \<Rightarrow> string list \<Rightarrow> proto \<times> props \<Rightarrow> error + proto \<times> props"
where
  "linearInterp call x1 x2 t objectKeys =
     (if typeof x1 \<noteq> typeof x2 then Inl TypeMismatchError
      else if typeof x1 \<noteq> ''number'' \<and> typeof x1 \<noteq> ''object'' then Inr x1
      else if typeof x1 = ''object'' then
        (case x1 of
           Obj p1 a1 ps1 \<Rightarrow>
             (case x2 of
                Obj p2 a2 ps2 \<Rightarrow>
                  if p1 \<noteq> p2 then Inl StructuralMismatchError
                  else
                    (case (if truthy (array_of (map Str (Object_keys x1)))
                           then Some (Object_keys x1) else objectKeys) of
                       None \<Rightarrow> Inl TypeError
                     | Some keys \<Rightarrow>
                         (case linearInterp_loop call p1 ps1 p2 ps2 t keys (p1, []) of
                            Inl e \<Rightarrow> Inl e
                          | Inr int_obj \<Rightarrow> Inr (Obj (fst int_obj) False (snd int_obj))))
              | _ \<Rightarrow> Inl TypeError)
         | _ \<Rightarrow> Inl TypeError)
      else
        (case x1 of
           Num a \<Rightarrow>
             (case x2 of
                Num b \<Rightarrow> Inr (Num (num_add (num_mul (num_sub (Fin 1) t) a) (num_mul t b)))
              | _ \<Rightarrow> Inl TypeError)
         | _ \<Rightarrow> Inl TypeError))"
| "linearInterp_loop call p1 ps1 p2 ps2 t [] int_obj = Inr int_obj"
| "linearInterp_loop call p1 ps1 p2 ps2 t (key # keys) int_obj =
     (case call_hasOwnProperty call p1 ps1 key of
        Inl e \<Rightarrow> Inl e
      | Inr has1 \<Rightarrow>
          (case (if \<not> has1 then Inr False else call_hasOwnProperty call p2 ps2 key) of
             Inl e \<Rightarrow> Inl e
           | Inr has2 \<Rightarrow>
               if \<not> has1 \<or> \<not> has2 then linearInterp_loop call p1 ps1 p2 ps2 t keys int_obj
               else
                 (case linearInterp call (get_prop p1 ps1 key) (get_prop p2 ps2 key) t None of
                    Inl e \<Rightarrow> Inl e
                  | Inr v \<Rightarrow>
                      linearInterp_loop call p1 ps1 p2 ps2 t keys
                        (assign (fst int_obj) (snd int_obj) key v))))"
  by pat_completeness auto
termination
proof -
  have own: "size v < size_list (size_prod (\<lambda>x. 0) (size_prod (\<lambda>x. 0) size)) ps"
    if "map_of ps k = Some (e, v)" for ps :: props and k e v
    using that by (induction ps) (auto split: if_splits)
  have chain: "size v < size p" if "chain_lookup p k = Some (e, v)" for p k e v
    using that
    by (induction p k rule: chain_lookup.induct) (auto split: option.splits dest: own)
  have smaller: "size (get_prop p ps k)
      \<le> size_list (size_prod (\<lambda>x. 0) (size_prod (\<lambda>x. 0) size)) ps + size p" for p ps k
    by (auto simp: get_prop_def lookup_def split: option.splits dest: own chain)
  show ?thesis
    by (relation "(\<lambda>x. case x of Inl (call, x1, x2, t, ok) \<Rightarrow> size x1
                          | Inr (call, p1, ps1, p2, ps2, t, keys, int_obj) \<Rightarrow>
                              size (Obj p1 False ps1) - 1)
                  <*mlex*> measure (\<lambda>x. case x of Inl _ \<Rightarrow> 0
                          | Inr (call, p1, ps1, p2, ps2, t, keys, int_obj) \<Rightarrow> Suc (length keys))")
      (auto simp: mlex_prod_def intro!: le_neq_implies_less smaller)
qed

text \<open>
  \<open>Math.PI\<close> is the double nearest to \<open>\<pi>\<close>.  \<open>Math.cos\<close> is an approximation that
  the host chooses, and is the parameter \<open>math_cos\<close>.
\<close>

definition Math_PI :: jsnum where
  "Math_PI = Fin (884279719003555 / 281474976710656)"

definition cos_weight :: "(jsnum \<Rightarrow> jsnum) \<Rightarrow> jsnum \<Rightarrow> jsnum" where
  "cos_weight math_cos t = math_cos (num_mul (num_div Math_PI (Fin 2)) t)"

function cosineInterp ::
    "(jsnum \<Rightarrow> jsnum) \<Rightarrow> (nat \<Rightarrow> jsval list \<Rightarrow> jsval + jsval) \<Rightarrow> jsval \<Rightarrow> jsval \<Rightarrow> jsnum \<Rightarrow> string list option
       \<Rightarrow> error + jsval"
  and cosineInterp_loop ::
    "(jsnum \<Rightarrow> jsnum) \<Rightarrow> (nat \<Rightarrow> jsval list \<Rightarrow> jsval + jsval) \<Rightarrow> proto \<Rightarrow> props \<Rightarrow> proto \<Rightarrow> props \<Rightarrow> jsnum
       \<Rightarrow> string list \<Rightarrow> proto \<times> props \<Rightarrow> error + proto \<times> props"
where
  "cosineInterp math_cos call x1 x2 t objectKeys =
     (if typeof x1 \<noteq> typeof x2 then Inl TypeMismatchError
      else if typeof x1 \<noteq> ''number'' \<and> typeof x1 \<noteq> ''object'' then Inr x1
      else if typeof x1 = ''object'' \<and> typeof x2 = ''object'' then
        (case x1 of
           Obj p1 a1 ps1 \<Rightarrow>
             (case x2 of
                Obj p2 a2 ps2 \<Rightarrow>
                  if p1 \<noteq> p2 then Inl StructuralMismatchError
                  else
                    (case (if truthy (array_of (map Str (Object_keys x1)))
                           then Some (Object_keys x1) else objectKeys) of
                       None \<Rightarrow> Inl TypeError
                     | Some keys \<Rightarrow>
                         (case cosineInterp_loop math_cos call p1 ps1 p2 ps2 t keys (p1, []) of
                            Inl e \<Rightarrow> Inl e
                          | Inr int_obj \<Rightarrow> Inr (Obj (fst int_obj) False (snd int_obj))))
              | _ \<Rightarrow> Inl TypeError)
         | _ \<Rightarrow> Inl TypeError)
      else
        (case x1 of
           Num a \<Rightarrow>
             (case x2 of
                Num b \<Rightarrow> 
                  Inr (Num (num_add (num_mul (cos_weight math_cos t) a)
                                    (num_mul (num_sub (Fin 1) (cos_weight math_cos t)) b)))
              | _ \<Rightarrow> Inl TypeError)
         | _ \<Rightarrow> Inl TypeError))"
| "cosineInterp_loop math_cos call p1 ps1 p2 ps2 t [] int_obj = Inr int_obj"
| "cosineInterp_loop math_cos call p1 ps1 p2 ps2 t (key # keys) int_obj =
     (case call_hasOwnProperty call p1 ps1 key of
        Inl e \<Rightarrow> Inl e
      | Inr has1 \<Rightarrow>
          (case (if \<not> has1 then Inr False else call_hasOwnProperty call p2 ps2 key) of
             Inl e \<Rightarrow> Inl e
           | Inr has2 \<Rightarrow>
               if \<not> has1 \<or> \<not> has2 then cosineInterp_loop math_cos call p1 ps1 p2 ps2 t keys int_obj
               else
                 (case cosineInterp math_cos call (get_prop p1 ps1 key) (get_prop p2 ps2 key) t None of
                    Inl e \<Rightarrow> Inl e
                  | Inr v \<Rightarrow>
                      cosineInterp_loop math_cos call p1 ps1 p2 ps2 t keys
                        (assign (fst int_obj) (snd int_obj) key v))))"
  by pat_completeness auto
termination
proof -
  have own: "size v < size_list (size_prod (\<lambda>x. 0) (size_prod (\<lambda>x. 0) size)) ps"
    if "map_of ps k = Some (e, v)" for ps :: props and k e v
    using that by (induction ps) (auto split: if_splits)
  have chain: "size v < size p" if "chain_lookup p k = Some (e, v)" for p k e v
    using that
    by (induction p k rule: chain_lookup.induct) (auto split: option.splits dest: own)
  have smaller: "size (get_prop p ps k)
      \<le> size_list (size_prod (\<lambda>x. 0) (size_prod (\<lambda>x. 0) size)) ps + size p" for p ps k
    by (auto simp: get_prop_def lookup_def split: option.splits dest: own chain)
  show ?thesis
    by (relation "(\<lambda>x. case x of Inl (math_cos, call, x1, x2, t, ok) \<Rightarrow> size x1
                          | Inr (math_cos, call, p1, ps1, p2, ps2, t, keys, int_obj) \<Rightarrow>
                              size (Obj p1 False ps1) - 1)
                  <*mlex*> measure (\<lambda>x. case x of Inl _ \<Rightarrow> 0
                          | Inr (math_cos, call, p1, ps1, p2, ps2, t, keys, int_obj) \<Rightarrow> Suc (length keys))")
      (auto simp: mlex_prod_def intro!: le_neq_implies_less smaller)
qed

declare linearInterp.simps [simp del]
declare cosineInterp.simps [simp del]

section \<open>The keyframe resolver\<close>

text \<open>
  The four variables of the scan of \<open>val\<close>.  \<open>for (keyTime in property)\<close> visits the
  enumerable properties in enumeration order, the own ones and then those of the
  prototypes given as values, leaving out a key that an object earlier in the chain has
  as own property; \<open>property[keyTime]\<close> is the value of the property visited.
\<close>

record bounds =
  lowerTime :: jsnum
  upperTime :: jsnum
  lowerValue :: jsval
  upperValue :: jsval

definition for_in :: "props \<Rightarrow> (string \<times> jsval) list" where
  "for_in ps = map (\<lambda>(k, e, v). (k, v)) (filter (\<lambda>(k, e, v). e) ps)"

fun chain_for_in :: "proto \<Rightarrow> string list \<Rightarrow> (string \<times> jsval) list" where
  "chain_for_in (ValuePrototype (Obj p a ps)) seen =
     for_in (filter (\<lambda>(k, e, v). k \<notin> set seen) ps) @ chain_for_in p (seen @ map fst ps)"
| "chain_for_in p seen = []"

definition for_in_chain :: "proto \<Rightarrow> props \<Rightarrow> (string \<times> jsval) list" where
  "for_in_chain p ps = for_in ps @ chain_for_in p (map fst ps)"

definition val_step :: "(string \<Rightarrow> jsnum) \<Rightarrow> jsnum \<Rightarrow> bounds \<Rightarrow> string \<times> jsval \<Rightarrow> bounds" where
  "val_step tn time b kv =
     (let keyValue = snd kv;
          keyTime = tn (fst kv);
          b1 = (if num_le (lowerTime b) keyTime \<and> num_le keyTime time
                then b\<lparr>lowerValue := keyValue, lowerTime := keyTime\<rparr> else b)
      in if num_le time keyTime \<and> num_le keyTime (upperTime b1)
         then b1\<lparr>upperValue := keyValue, upperTime := keyTime\<rparr> else b1)"

definition val_init :: bounds where
  "val_init = \<lparr>lowerTime = Fin 0, upperTime = PInf, lowerValue = Null, upperValue = Null\<rparr>"

definition val_scan :: "(string \<Rightarrow> jsnum) \<Rightarrow> jsnum \<Rightarrow> (string \<times> jsval) list \<Rightarrow> bounds" where
  "val_scan tn time kvs = foldl (val_step tn time) val_init kvs"

fun props_of :: "jsval \<Rightarrow> props" where
  "props_of (Obj p a ps) = ps"
| "props_of v = []"

fun proto_of :: "jsval \<Rightarrow> proto" where
  "proto_of (Obj p a ps) = p"
| "proto_of v = ObjectPrototype"

text \<open>The entries that the loop of \<open>val\<close> visits.\<close>

definition entries :: "jsval \<Rightarrow> (string \<times> jsval) list" where
  "entries property = for_in_chain (proto_of property) (props_of property)"

text \<open>
  \<open>property.interpolationKeys\<close> as handed to the default interpolator: the strings of
  an array of strings, and \<open>undefined\<close> for what is not an object.
\<close>

fun keys_arg :: "jsval \<Rightarrow> string list option" where
  "keys_arg (Obj p a ps) =
     Some (concat (map (\<lambda>(k, v). case v of Str s \<Rightarrow> [s] | _ \<Rightarrow> []) (for_in ps)))"
| "keys_arg v = None"

fun time_val :: "jsnum option \<Rightarrow> jsval" where
  "time_val None = Undefined"
| "time_val (Some t) = Num t"

text \<open>
  \<open>val\<close>.  \<open>time\<close> is a number or missing (\<open>None\<close>, for \<open>undefined\<close>); \<open>tn\<close> is the
  conversion \<open>+keyTime\<close> of a key to a number.
\<close>

definition val ::
  "(string \<Rightarrow> jsnum) \<Rightarrow> (nat \<Rightarrow> jsval list \<Rightarrow> jsval + jsval) \<Rightarrow> jsval \<Rightarrow> jsval \<Rightarrow> jsnum option
     \<Rightarrow> error + jsval" where
  "val tn call property element time_opt =
     (if isKeyFrames tn property then
        (case time_opt of
           None \<Rightarrow> Inl InvalidInputError
         | Some time \<Rightarrow>
             (let b = val_scan tn time (entries property) in
              if lowerValue b = Null then Inl (MissingLowerBoundError time)
              else if \<not> (typeof (lowerValue b) = ''number'' \<or> typeof (lowerValue b) = ''object'')
              then Inr (lowerValue b)
              else if upperValue b = Null then Inl (MissingUpperBoundError time)
              else if typeof (lowerValue b) \<noteq> typeof (upperValue b) then Inl TypeMismatchError
              else if num_strict_eq (upperTime b) (lowerTime b) then Inr (upperValue b)
              else
                (let progress = num_sub time (lowerTime b);
                     percentProgress = num_div progress (num_sub (upperTime b) (lowerTime b));
                     interpolate = get_prop (proto_of property) (props_of property) ''interpolate'';
                     interpolationKeys =
                       get_prop (proto_of property) (props_of property) ''interpolationKeys''
                 in if truthy interpolate then
                      (case interpolate of
                         Func f \<Rightarrow>
                           call_function call f
                             [lowerValue b, upperValue b, Num percentProgress, interpolationKeys]
                       | _ \<Rightarrow> Inl TypeError)
                    else linearInterp call (lowerValue b) (upperValue b) percentProgress
                           (keys_arg interpolationKeys))))
      else if typeof property = ''function'' then
        (case property of
           Func f \<Rightarrow> call_function call f [element, time_val time_opt]
         | _ \<Rightarrow> Inl TypeError)
      else Inr property)"

section \<open>The conversion of keys to numbers\<close>

text \<open>
  The theorems below hold for every conversion \<open>tn\<close>.  Examples need one: this is the
  host's conversion of a string to a number (white space trimmed; the empty string is
  \<open>0\<close>; hexadecimal, octal and binary integers; signed decimal literals with fraction and
  exponent; \<open>Infinity\<close>; NaN otherwise), the value of a literal rounded to a double.
\<close>

definition is_digit :: "char \<Rightarrow> bool" where
  "is_digit c = (48 \<le> (of_char c :: nat) \<and> (of_char c :: nat) \<le> 57)"

definition digit_value :: "char \<Rightarrow> nat" where
  "digit_value c =
     (let n = (of_char c :: nat)
      in if 97 \<le> n then n - 87 else if 65 \<le> n then n - 55 else n - 48)"

definition is_radix_digit :: "nat \<Rightarrow> char \<Rightarrow> bool" where
  "is_radix_digit radix c =
     (let n = (of_char c :: nat)
      in ((48 \<le> n \<and> n \<le> 57) \<or> (97 \<le> n \<and> n \<le> 102) \<or> (65 \<le> n \<and> n \<le> 70))
         \<and> digit_value c < radix)"

definition digits_value :: "nat \<Rightarrow> string \<Rightarrow> nat" where
  "digits_value radix ds = foldl (\<lambda>a c. radix * a + digit_value c) 0 ds"

definition is_white :: "char \<Rightarrow> bool" where
  "is_white c = ((of_char c :: nat) \<in> {9, 10, 11, 12, 13, 32, 160})"

definition trim :: "string \<Rightarrow> string" where
  "trim s = rev (dropWhile is_white (rev (dropWhile is_white s)))"

definition all_digits :: "string \<Rightarrow> bool" where
  "all_digits ds = (ds \<noteq> [] \<and> list_all is_digit ds)"

definition scale10 :: "nat \<Rightarrow> int \<Rightarrow> real" where
  "scale10 m e = (if 0 \<le> e then real m * 10 ^ nat e else real m / 10 ^ nat (- e))"

definition exponent_part :: "string \<Rightarrow> int option" where
  "exponent_part r =
     (case r of
        [] \<Rightarrow> Some 0
      | c # ds \<Rightarrow>
          if c \<noteq> CHR ''e'' \<and> c \<noteq> CHR ''E'' then None
          else
            (case ds of
               [] \<Rightarrow> None
             | s # ds' \<Rightarrow>
                 if s = CHR ''-'' then
                   (if all_digits ds' then Some (- int (digits_value 10 ds')) else None)
                 else if s = CHR ''+'' then
                   (if all_digits ds' then Some (int (digits_value 10 ds')) else None)
                 else if all_digits ds then Some (int (digits_value 10 ds))
                 else None))"

definition unsigned_decimal :: "string \<Rightarrow> jsnum" where
  "unsigned_decimal r =
     (if r = ''Infinity'' then PInf
      else
        (let ip = takeWhile is_digit r;
             r1 = dropWhile is_digit r;
             has_dot = (r1 \<noteq> [] \<and> hd r1 = CHR ''.'');
             fp = (if has_dot then takeWhile is_digit (tl r1) else []);
             r2 = (if has_dot then dropWhile is_digit (tl r1) else r1)
         in if ip = [] \<and> fp = [] then NaN
            else
              (case exponent_part r2 of
                 None \<Rightarrow> NaN
               | Some e \<Rightarrow>
                   round_double (scale10 (digits_value 10 (ip @ fp)) (e - int (length fp))))))"

definition radix_literal :: "string \<Rightarrow> jsnum option" where
  "radix_literal t =
     (case t of
        z # c # ds \<Rightarrow>
          (let radix = (if c = CHR ''x'' \<or> c = CHR ''X'' then 16
                        else if c = CHR ''o'' \<or> c = CHR ''O'' then 8
                        else if c = CHR ''b'' \<or> c = CHR ''B'' then 2 else 0)
           in if z = CHR ''0'' \<and> radix \<noteq> 0 then
                (if ds \<noteq> [] \<and> list_all (is_radix_digit radix) ds
                 then Some (round_double (real (digits_value radix ds))) else Some NaN)
              else None)
      | _ \<Rightarrow> None)"

definition StringToNumber :: "string \<Rightarrow> jsnum" where
  "StringToNumber s =
     (let t = trim s in
      case t of
        [] \<Rightarrow> Fin 0
      | c # r \<Rightarrow>
          (case radix_literal t of
             Some n \<Rightarrow> n
           | None \<Rightarrow>
               if c = CHR ''-'' then num_neg (unsigned_decimal r)
               else if c = CHR ''+'' then unsigned_decimal r
               else unsigned_decimal t))"

section \<open>Default options\<close>

text \<open>
  A class carries its own \<open>defaultOptions\<close>, the list \<open>inheritedDefaultOptions\<close> of
  classes it takes defaults from, and its \<open>prototype\<close>.  Classes refer to each other, so
  they live in a table from names to classes.
\<close>

record clazz =
  defaultOptions :: props
  inheritedDefaultOptions :: "nat list"
  prototype :: proto

text \<open>
  The object literal \<open>{...a, ...b}\<close>: a fresh object receiving the own enumerable
  properties of \<open>a\<close>, then those of \<open>b\<close>.
\<close>

definition spread_into :: "props \<Rightarrow> props \<Rightarrow> props" where
  "spread_into target source = foldl (\<lambda>acc (k, v). set_prop acc k v) target (for_in source)"

definition object_spread :: "props \<Rightarrow> props \<Rightarrow> props" where
  "object_spread a b = spread_into (spread_into [] a) b"

text \<open>
  \<open>getDefaultOptions\<close>: the \<open>while (queue.length)\<close> loop, which need not end on a
  table with a cycle (\<open>None\<close>).
\<close>

partial_function (option) getDefaultOptions_loop ::
    "(nat \<Rightarrow> clazz) \<Rightarrow> nat list \<Rightarrow> props \<Rightarrow> props option" where
  "getDefaultOptions_loop classes queue merged =
     (case queue of
        [] \<Rightarrow> Some merged
      | currClass # rest \<Rightarrow>
          getDefaultOptions_loop classes
            (rest @ inheritedDefaultOptions (classes currClass))
            (object_spread merged (defaultOptions (classes currClass))))"

definition getDefaultOptions :: "(nat \<Rightarrow> clazz) \<Rightarrow> nat \<Rightarrow> props option" where
  "getDefaultOptions classes clazz = getDefaultOptions_loop classes [clazz] []"

text \<open>
  \<open>applyOptions\<close>.  \<open>options\<close> is an object literal, given by its properties;
  \<open>destObj\<close> is given by its prototype and its properties; the result is the prototype
  and the properties of \<open>destObj\<close> afterwards and the error thrown, if any.  The
  validation calls \<open>defaultOptions.hasOwnProperty(option)\<close> on the merged
  defaults, an object literal; the copy assigns \<open>destObj[option]\<close> for every key of the
  merged options.  An object assigned to \<open>destObj.__proto__\<close> is taken not to have
  \<open>destObj\<close> in its own chain.
\<close>

fun validate_options ::
  "(nat \<Rightarrow> jsval list \<Rightarrow> jsval + jsval) \<Rightarrow> props \<Rightarrow> string list \<Rightarrow> error option" where
  "validate_options call defaults [] = None"
| "validate_options call defaults (option # rest) =
     (case call_hasOwnProperty call ObjectPrototype defaults option of
        Inl e \<Rightarrow> Some e
      | Inr has \<Rightarrow>
          if \<not> has then Some (InvalidOptionError option)
          else validate_options call defaults rest)"

definition copy_options :: "proto \<times> props \<Rightarrow> props \<Rightarrow> proto \<times> props" where
  "copy_options dest merged = foldl (\<lambda>d (k, v). assign (fst d) (snd d) k v) dest (for_in merged)"

definition applyOptions ::
  "(nat \<Rightarrow> clazz) \<Rightarrow> (nat \<Rightarrow> jsval list \<Rightarrow> jsval + jsval) \<Rightarrow> props \<Rightarrow> proto \<Rightarrow> props \<Rightarrow> nat
     \<Rightarrow> ((proto \<times> props) \<times> error option) option" where
  "applyOptions classes call options destProto destObj callingClass =
     (let superclass = (destProto \<noteq> prototype (classes callingClass)) in
      if superclass then Some ((destProto, destObj), None)
      else
        (case getDefaultOptions classes callingClass of
           None \<Rightarrow> None
         | Some defaults \<Rightarrow>
             (case validate_options call defaults (map fst (for_in options)) of
                Some e \<Rightarrow> Some ((destProto, destObj), Some e)
              | None \<Rightarrow>
                  Some (copy_options (destProto, destObj) (object_spread defaults options),
                        None))))"

section \<open>Fonts\<close>

record Font =
  size_num :: jsnum
  family :: string
  sizeUnit :: string

text \<open>\<open>str.split(" ")\<close>: the pieces between single space characters.\<close>

fun split_space :: "string \<Rightarrow> string list" where
  "split_space [] = [[]]"
| "split_space (c # cs) =
     (if c = CHR '' '' then [] # split_space cs
      else (case split_space cs of w # ws \<Rightarrow> (c # w) # ws | [] \<Rightarrow> [[c]]))"

text \<open>
  \<open>parseFont\<close>.  \<open>parseFloat\<close> and the \<open>toString\<close> of numbers are the host's and are
  parameters; \<open>substring(n)\<close> drops the first \<open>n\<close> characters.
\<close>

definition parseFont :: "(string \<Rightarrow> jsnum) \<Rightarrow> (jsnum \<Rightarrow> string) \<Rightarrow> string \<Rightarrow> error + Font" where
  "parseFont parseFloat toString str =
     (let split = split_space str in
      if length split \<noteq> 2 then Inl (InvalidFormatError str)
      else
        (let sizeWithUnit = split ! 0;
             family = split ! 1;
             size = parseFloat sizeWithUnit;
             sizeUnit = drop (length (toString size)) sizeWithUnit
         in Inr \<lparr>size_num = size, family = family, sizeUnit = sizeUnit\<rparr>))"

section \<open>Example inputs\<close>

text \<open>
  A class table: \<open>0\<close> is \<open>C\<close>, which declares nothing and inherits \<open>[A, B]\<close>; \<open>1\<close> is
  \<open>A\<close> with \<open>{k: 1}\<close>; \<open>2\<close> is \<open>B\<close> with \<open>{k: 2}\<close>; \<open>3\<close> is \<open>D\<close> with \<open>{k: 0}\<close>,
  inheriting \<open>[A]\<close>; \<open>4\<close> is \<open>E\<close>, which inherits \<open>[C, D]\<close>, so that \<open>A\<close> is reached
  along two paths.
\<close>

definition inheriting :: "nat \<Rightarrow> clazz" where
  "inheriting =
     (\<lambda>n. \<lparr>defaultOptions = [], inheritedDefaultOptions = [], prototype = ObjectPrototype\<rparr>)
     (0 := \<lparr>defaultOptions = [], inheritedDefaultOptions = [1, 2],
            prototype = ClassPrototype ''C''\<rparr>,
      1 := \<lparr>defaultOptions = [(''k'', True, Num (Fin 1))], inheritedDefaultOptions = [],
            prototype = ClassPrototype ''A''\<rparr>,
      2 := \<lparr>defaultOptions = [(''k'', True, Num (Fin 2))], inheritedDefaultOptions = [],
            prototype = ClassPrototype ''B''\<rparr>,
      3 := \<lparr>defaultOptions = [(''k'', True, Num (Fin 0))], inheritedDefaultOptions = [1],
            prototype = ClassPrototype ''D''\<rparr>,
      4 := \<lparr>defaultOptions = [(''j'', True, Str ''e'')], inheritedDefaultOptions = [0, 3],
            prototype = ClassPrototype ''E''\<rparr>)"

section \<open>Candidate bounds\<close>

text \<open>
  The entries the scan can take as lower bound at \<open>time\<close> (the scan starts from
  \<open>lowerTime = 0\<close>) and as upper bound.
\<close>

definition lower_cand :: "(string \<Rightarrow> jsnum) \<Rightarrow> jsnum \<Rightarrow> string \<times> jsval \<Rightarrow> bool" where
  "lower_cand tn time kv = (num_le (Fin 0) (tn (fst kv)) \<and> num_le (tn (fst kv)) time)"

definition upper_cand :: "(string \<Rightarrow> jsnum) \<Rightarrow> jsnum \<Rightarrow> string \<times> jsval \<Rightarrow> bool" where
  "upper_cand tn time kv = num_le time (tn (fst kv))"

text \<open>The value of an own property, if there is one.\<close>

definition own_value :: "props \<Rightarrow> string \<Rightarrow> jsval option" where
  "own_value ps k = map_option snd (map_of ps k)"

text \<open>
  An object built by assignments to a fresh one: its keys are distinct and all
  enumerable.
\<close>

definition fresh_object :: "props \<Rightarrow> bool" where
  "fresh_object ps = (distinct (map fst ps) \<and> (\<forall>x \<in> set ps. fst (snd x)))"

section \<open>The graph of inherited sources\<close>

text \<open>
  The edges from a class to the classes it lists in \<open>inheritedDefaultOptions\<close>, and
  the part of that graph reachable from one class.
\<close>

definition inherits :: "(nat \<Rightarrow> clazz) \<Rightarrow> (nat \<times> nat) set" where
  "inherits classes = {(c, d). d \<in> set (inheritedDefaultOptions (classes c))}"

definition source_graph :: "(nat \<Rightarrow> clazz) \<Rightarrow> nat \<Rightarrow> (nat \<times> nat) set" where
  "source_graph classes clazz =
     {(c, d). (clazz, c) \<in> (inherits classes)\<^sup>* \<and> (c, d) \<in> inherits classes}"

text \<open>A class table with a cycle: every class inherits from itself.\<close>

definition self_inheriting :: "nat \<Rightarrow> clazz" where
  "self_inheriting =
     (\<lambda>n. \<lparr>defaultOptions = [], inheritedDefaultOptions = [n], prototype = ObjectPrototype\<rparr>)"

section \<open>The host's number parsing and printing\<close>

text \<open>
  \<open>parseFloat\<close> and the \<open>toString\<close> of numbers are parameters of \<open>parseFont\<close>.  For
  examples: \<open>parseFloat\<close> skips leading white space and reads an optional sign and
  \<open>Infinity\<close> or the longest decimal literal at the start, NaN when there is none, the
  value of the literal rounded to a double; \<open>toString\<close> prints NaN, the infinities, and
  a finite number in decimal notation without exponent, which is the host's output for
  the doubles with at most 15 significant decimal digits and a magnitude from \<open>1e-6\<close>
  up to \<open>1e21\<close>.
\<close>

definition exponent_prefix :: "string \<Rightarrow> int" where
  "exponent_prefix r =
     (case r of
        [] \<Rightarrow> 0
      | c # ds \<Rightarrow>
          if c \<noteq> CHR ''e'' \<and> c \<noteq> CHR ''E'' then 0
          else
            (case ds of
               [] \<Rightarrow> 0
             | s # ds' \<Rightarrow>
                 if s = CHR ''-'' then - int (digits_value 10 (takeWhile is_digit ds'))
                 else if s = CHR ''+'' then int (digits_value 10 (takeWhile is_digit ds'))
                 else int (digits_value 10 (takeWhile is_digit ds))))"

definition decimal_prefix :: "string \<Rightarrow> jsnum" where
  "decimal_prefix r =
     (if take 8 r = ''Infinity'' then PInf
      else
        (let ip = takeWhile is_digit r;
             r1 = dropWhile is_digit r;
             has_dot = (r1 \<noteq> [] \<and> hd r1 = CHR ''.'');
             fp = (if has_dot then takeWhile is_digit (tl r1) else []);
             r2 = (if has_dot then dropWhile is_digit (tl r1) else r1)
         in if ip = [] \<and> fp = [] then NaN
            else round_double
                   (scale10 (digits_value 10 (ip @ fp)) (exponent_prefix r2 - int (length fp)))))"

definition host_parseFloat :: "string \<Rightarrow> jsnum" where
  "host_parseFloat s =
     (case dropWhile is_white s of
        [] \<Rightarrow> NaN
      | c # r \<Rightarrow>
          if c = CHR ''-'' then num_neg (decimal_prefix r)
          else if c = CHR ''+'' then decimal_prefix r
          else decimal_prefix (c # r))"

fun fraction_digits :: "nat \<Rightarrow> real \<Rightarrow> string" where
  "fraction_digits 0 x = []"
| "fraction_digits (Suc n) x =
     (if x = 0 then []
      else char_of (48 + nat \<lfloor>x * 10\<rfloor>) # fraction_digits n (x * 10 - real_of_int \<lfloor>x * 10\<rfloor>))"

definition host_toString :: "jsnum \<Rightarrow> string" where
  "host_toString n =
     (case n of
        NaN \<Rightarrow> ''NaN''
      | PInf \<Rightarrow> ''Infinity''
      | NInf \<Rightarrow> ''-Infinity''
      | Fin x \<Rightarrow>
          (if x < 0 then ''-'' else [])
          @ nat_digits (nat \<lfloor>\<bar>x\<bar>\<rfloor>)
          @ (if \<bar>x\<bar> = real_of_int \<lfloor>\<bar>x\<bar>\<rfloor> then []
             else ''.'' @ fraction_digits 20 (\<bar>x\<bar> - real_of_int \<lfloor>\<bar>x\<bar>\<rfloor>)))"

text \<open>
  The tokens of a string in the sense of the specification: the maximal runs of
  characters that are not white space.
\<close>

fun tokens_from :: "string \<Rightarrow> string \<Rightarrow> string list" where
  "tokens_from cur [] = (if cur = [] then [] else [cur])"
| "tokens_from cur (c # cs) =
     (if is_white c then (if cur = [] then tokens_from [] cs else cur # tokens_from [] cs)
      else tokens_from (cur @ [c]) cs)"

definition whitespace_tokens :: "string \<Rightarrow> string list" where
  "whitespace_tokens s = tokens_from [] s"

section \<open>Rounding to a double\<close>

text \<open>
  Some values of the rounding: small integers and \<open>1/2\<close> are doubles, and so is
  \<open>Math.PI\<close>; the sum of the doubles nearest to \<open>0.1\<close> and \<open>0.2\<close> is the double
  \<open>0.30000000000000004\<close>, which is not the double nearest to \<open>0.3\<close>.
\<close>

lemma round_double_0: "round_double 0 = Fin 0"
  by (simp add: round_double_def)

lemma round_double_half: "round_double (1 / 2) = Fin (1 / 2)"
  by code_simp

lemma round_double_5: "round_double 5 = Fin 5"
  by code_simp

lemma round_double_Math_PI: "round_double (884279719003555 / 281474976710656) = Math_PI"
  unfolding Math_PI_def by code_simp

lemma round_double_tenths:
  "num_add (round_double (1 / 10)) (round_double (2 / 10))
     = Fin (5404319552844596 / 18014398509481984)"
  "round_double (3 / 10) = Fin (5404319552844595 / 18014398509481984)"
  by code_simp+

section \<open>The discriminator accepts every non-array object\<close>

lemma isKeyFrames_loop_True: "isKeyFrames_loop tn keys"
  by (induction keys) (simp_all add: num_strict_eq_def)

lemma isKeyFrames_iff_object: "isKeyFrames tn v = (\<exists>p ps. v = Obj p False ps)"
  by (cases v) (auto simp: isKeyFrames_def isKeyFrames_loop_True)

text \<open>
  C1.  The discriminator is documented to reject an object with a key that is neither a
  number nor reserved.  The object \<open>{foo: 1}\<close> has the key \<open>foo\<close>, whose conversion is
  NaN; the discriminator accepts it, and resolution does not return it as a constant: it
  fails for want of a lower bound, or for want of a time.
\<close>

theorem isKeyFrames_accepts_foo:
  "StringToNumber ''foo'' = NaN
   \<and> isKeyFrames StringToNumber (Obj ObjectPrototype False [(''foo'', True, Num (Fin 1))])
   \<and> val StringToNumber no_calls (Obj ObjectPrototype False [(''foo'', True, Num (Fin 1))])
        Undefined (Some (Fin 0)) = Inl (MissingLowerBoundError (Fin 0))
   \<and> val StringToNumber no_calls (Obj ObjectPrototype False [(''foo'', True, Num (Fin 1))])
        Undefined None = Inl InvalidInputError"
proof -
  have nan: "StringToNumber ''foo'' = NaN"
    by code_simp
  have kf: "isKeyFrames StringToNumber (Obj ObjectPrototype False [(''foo'', True, Num (Fin 1))])"
    by (simp add: isKeyFrames_iff_object)
  have scan: "val_scan StringToNumber (Fin 0) [(''foo'', Num (Fin 1))] = val_init"
    by (simp add: val_scan_def val_step_def nan)
  show ?thesis
    using nan kf
    by (simp add: val_def entries_def for_in_chain_def for_in_def scan val_init_def)
qed

theorem isKeyFrames_accepts_foo_witness:
  "isKeyFrames StringToNumber (Obj ObjectPrototype False [(''foo'', True, Num (Fin 1))])"
  by (rule conjunct1 [OF conjunct2 [OF isKeyFrames_accepts_foo]])

section \<open>The breadth-first merge of default options\<close>

lemma getDefaultOptions_loop_Nil: "getDefaultOptions_loop classes [] merged = Some merged"
  by (simp add: getDefaultOptions_loop.simps)

lemma getDefaultOptions_loop_Cons:
  "getDefaultOptions_loop classes (currClass # rest) merged =
     getDefaultOptions_loop classes (rest @ inheritedDefaultOptions (classes currClass))
       (object_spread merged (defaultOptions (classes currClass)))"
  by (subst getDefaultOptions_loop.simps) simp

text \<open>
  C2.  The merge spreads the defaults of the class taken from the queue over what was
  merged before, so that a source taken later overwrites an earlier one.  For \<open>C\<close>
  inheriting \<open>[A, B]\<close> the key \<open>k\<close> gets the value of \<open>B\<close>, not of \<open>A\<close>; for \<open>D\<close>, which
  declares \<open>k\<close> itself and inherits \<open>[A]\<close>, it gets the value of the parent \<open>A\<close>, not the
  one \<open>D\<close> declares.
\<close>

theorem getDefaultOptions_later_source_wins:
  "getDefaultOptions inheriting 0 = Some [(''k'', True, Num (Fin 2))]
   \<and> getDefaultOptions inheriting 3 = Some [(''k'', True, Num (Fin 1))]"
  by (simp add: getDefaultOptions_def getDefaultOptions_loop_Nil getDefaultOptions_loop_Cons
      inheriting_def object_spread_def spread_into_def for_in_def)

theorem getDefaultOptions_later_source_wins_witness:
  "getDefaultOptions inheriting 0 = Some [(''k'', True, Num (Fin 2))]"
  by (rule conjunct1 [OF getDefaultOptions_later_source_wins])

section \<open>The key list of the interpolators\<close>

lemma truthy_array_of: "truthy (array_of vs)"
  by (simp add: array_of_def)

lemma linearInterp_ignores_objectKeys:
  "linearInterp call x1 x2 t objectKeys = linearInterp call x1 x2 t None"
  by (simp add: linearInterp.simps truthy_array_of)

lemma cosineInterp_ignores_objectKeys:
  "cosineInterp math_cos call x1 x2 t objectKeys = cosineInterp math_cos call x1 x2 t None"
  by (simp add: cosineInterp.simps truthy_array_of)

lemma call_hasOwnProperty_builtin:
  "lookup p ps ''hasOwnProperty'' = None \<Longrightarrow> inherits_Object_prototype p \<Longrightarrow>
     call_hasOwnProperty call p ps k = Inr (hasOwnProperty ps k)"
  by (simp add: call_hasOwnProperty_def)

text \<open>
  C5.  The key list is \<open>Object.keys(x1) || objectKeys\<close>, and an array is truthy, the
  empty one too: \<open>objectKeys\<close> is never used.  Here \<open>x1\<close> has the own property \<open>x\<close>,
  not enumerable, so \<open>Object.keys(x1)\<close> is empty, and \<open>x2\<close> is \<open>{x: 10}\<close>; with
  \<open>objectKeys = ["x"]\<close> both interpolators return the empty object, where a loop over
  \<open>["x"]\<close> builds \<open>{x: 5}\<close>.
\<close>

theorem interp_objectKeys_unused:
  "Object_keys (Obj ObjectPrototype False [(''x'', False, Num (Fin 0))]) = []
   \<and> linearInterp call (Obj ObjectPrototype False [(''x'', False, Num (Fin 0))])
        (Obj ObjectPrototype False [(''x'', True, Num (Fin 10))]) (Fin (1 / 2)) (Some [''x''])
      = Inr (Obj ObjectPrototype False [])
   \<and> cosineInterp math_cos call (Obj ObjectPrototype False [(''x'', False, Num (Fin 0))])
        (Obj ObjectPrototype False [(''x'', True, Num (Fin 10))]) (Fin (1 / 2)) (Some [''x''])
      = Inr (Obj ObjectPrototype False [])
   \<and> linearInterp_loop call ObjectPrototype [(''x'', False, Num (Fin 0))]
        ObjectPrototype [(''x'', True, Num (Fin 10))] (Fin (1 / 2)) [''x''] (ObjectPrototype, [])
      = Inr (ObjectPrototype, [(''x'', True, Num (Fin 5))])"
proof -
  have has: "call_hasOwnProperty call ObjectPrototype [(''x'', e, v)] ''x'' = Inr True" for e v
    by (simp add: call_hasOwnProperty_builtin lookup_def hasOwnProperty_def)
  have num: "linearInterp call (Num (Fin 0)) (Num (Fin 10)) (Fin (1 / 2)) None = Inr (Num (Fin 5))"
    by (simp add: linearInterp.simps num_sub_def round_double_0 round_double_half round_double_5)
  have loop: "linearInterp_loop call ObjectPrototype [(''x'', False, Num (Fin 0))]
        ObjectPrototype [(''x'', True, Num (Fin 10))] (Fin (1 / 2)) [''x''] (ObjectPrototype, [])
      = Inr (ObjectPrototype, [(''x'', True, Num (Fin 5))])"
    by (simp add: has get_prop_def lookup_def num assign_def)
  show ?thesis
    using loop by (simp add: linearInterp.simps cosineInterp.simps own_keys_def truthy_array_of)
qed

theorem interp_objectKeys_unused_witness:
  "Object_keys (Obj ObjectPrototype False [(''x'', False, Num (Fin 0))]) = []"
  by (rule conjunct1 [OF interp_objectKeys_unused])

section \<open>The scan for the bounds\<close>

lemma num_le_NaN_left [simp]: "\<not> num_le NaN b"
  by simp

lemma num_le_NaN_right [simp]: "\<not> num_le a NaN"
  by (cases a) simp_all

lemma num_le_refl: "a \<noteq> NaN \<Longrightarrow> num_le a a"
  by (cases a) simp_all

lemma num_le_PInf: "a \<noteq> NaN \<Longrightarrow> num_le a PInf"
  by (cases a) simp_all

lemma num_le_trans: "num_le a b \<Longrightarrow> num_le b c \<Longrightarrow> num_le a c"
  by (cases a; cases b; cases c) simp_all


lemma num_le_total: "a \<noteq> NaN \<Longrightarrow> b \<noteq> NaN \<Longrightarrow> num_le a b \<or> num_le b a"
  by (cases a; cases b) auto

lemma num_le_not_NaN: "num_le a b \<Longrightarrow> a \<noteq> NaN \<and> b \<noteq> NaN"
  by (cases a; cases b) simp_all

lemma val_scan_Nil: "val_scan tn time [] = val_init"
  by (simp add: val_scan_def)

lemma val_scan_snoc: "val_scan tn time (kvs @ [kv]) = val_step tn time (val_scan tn time kvs) kv"
  by (simp add: val_scan_def)

lemma lowerTime_val_step:
  "lowerTime (val_step tn time b kv) =
     (if num_le (lowerTime b) (tn (fst kv)) \<and> num_le (tn (fst kv)) time then tn (fst kv) else lowerTime b)"
  by (auto simp: val_step_def Let_def)

lemma lowerValue_val_step:
  "lowerValue (val_step tn time b kv) =
     (if num_le (lowerTime b) (tn (fst kv)) \<and> num_le (tn (fst kv)) time then snd kv else lowerValue b)"
  by (auto simp: val_step_def Let_def)

lemma upperTime_val_step:
  "upperTime (val_step tn time b kv) =
     (if num_le time (tn (fst kv)) \<and> num_le (tn (fst kv)) (upperTime b) then tn (fst kv) else upperTime b)"
  by (auto simp: val_step_def Let_def)

lemma upperValue_val_step:
  "upperValue (val_step tn time b kv) =
     (if num_le time (tn (fst kv)) \<and> num_le (tn (fst kv)) (upperTime b) then snd kv else upperValue b)"
  by (auto simp: val_step_def Let_def)

lemmas val_step_fields = lowerTime_val_step lowerValue_val_step upperTime_val_step upperValue_val_step

lemma val_scan_lower:
  "(\<not> (\<exists>kv \<in> set kvs. lower_cand tn time kv)
      \<and> lowerTime (val_scan tn time kvs) = Fin 0 \<and> lowerValue (val_scan tn time kvs) = Null)
   \<or> (\<exists>kv \<in> set kvs. lower_cand tn time kv
         \<and> lowerTime (val_scan tn time kvs) = tn (fst kv)
         \<and> lowerValue (val_scan tn time kvs) = snd kv
         \<and> (\<forall>kv' \<in> set kvs. lower_cand tn time kv' \<longrightarrow> num_le (tn (fst kv')) (tn (fst kv))))"
proof (induction kvs rule: rev_induct)
  case Nil
  show ?case by (simp add: val_scan_Nil val_init_def)
next
  case (snoc kv kvs)
  let ?b = "val_scan tn time kvs"
  let ?k = "tn (fst kv)"
  show ?case
  proof (cases "num_le (lowerTime ?b) ?k \<and> num_le ?k time")
    case True
    then have le: "num_le (lowerTime ?b) ?k" and kt: "num_le ?k time" by simp_all
    have zero: "num_le (Fin 0) (lowerTime ?b)"
      using snoc.IH by (auto simp: lower_cand_def)
    have cand: "lower_cand tn time kv"
      using num_le_trans [OF zero le] kt by (simp add: lower_cand_def)
    have best: "num_le (tn (fst kv')) ?k" if "kv' \<in> set kvs" "lower_cand tn time kv'" for kv'
      using snoc.IH that le by (auto intro: num_le_trans)
    have self: "num_le ?k ?k"
      using kt num_le_not_NaN num_le_refl by blast
    have "lowerTime (val_scan tn time (kvs @ [kv])) = ?k"
      and "lowerValue (val_scan tn time (kvs @ [kv])) = snd kv"
      using True by (simp_all add: val_scan_snoc val_step_fields)
    then show ?thesis
      using cand best self by auto
  next
    case False
    then have same: "lowerTime (val_scan tn time (kvs @ [kv])) = lowerTime ?b"
      "lowerValue (val_scan tn time (kvs @ [kv])) = lowerValue ?b"
      by (auto simp add: val_scan_snoc val_step_fields)
    show ?thesis
    proof (cases "lower_cand tn time kv")
      case nocand: False
      then show ?thesis
        using snoc.IH same by auto
    next
      case cand: True
      then have kt: "num_le ?k time" and k0: "num_le (Fin 0) ?k"
        by (simp_all add: lower_cand_def)
      with False have notle: "\<not> num_le (lowerTime ?b) ?k" by simp
      from snoc.IH notle k0 obtain kv0 where kv0: "kv0 \<in> set kvs" "lower_cand tn time kv0"
        "lowerTime ?b = tn (fst kv0)" "lowerValue ?b = snd kv0"
        "\<forall>kv' \<in> set kvs. lower_cand tn time kv' \<longrightarrow> num_le (tn (fst kv')) (tn (fst kv0))"
        by auto
      have "num_le ?k (tn (fst kv0))"
        using num_le_total [of ?k "tn (fst kv0)"] notle kv0(2,3) kt num_le_not_NaN
        by (auto simp: lower_cand_def)
      then show ?thesis
        using kv0 same by auto
    qed
  qed
qed


lemma val_scan_upper:
  "(\<not> (\<exists>kv \<in> set kvs. upper_cand tn time kv)
      \<and> upperTime (val_scan tn time kvs) = PInf \<and> upperValue (val_scan tn time kvs) = Null)
   \<or> (\<exists>kv \<in> set kvs. upper_cand tn time kv
         \<and> upperTime (val_scan tn time kvs) = tn (fst kv)
         \<and> upperValue (val_scan tn time kvs) = snd kv
         \<and> (\<forall>kv' \<in> set kvs. upper_cand tn time kv' \<longrightarrow> num_le (tn (fst kv)) (tn (fst kv'))))"
proof (induction kvs rule: rev_induct)
  case Nil
  show ?case by (simp add: val_scan_Nil val_init_def)
next
  case (snoc kv kvs)
  let ?b = "val_scan tn time kvs"
  let ?k = "tn (fst kv)"
  show ?case
  proof (cases "num_le time ?k \<and> num_le ?k (upperTime ?b)")
    case True
    then have le: "num_le ?k (upperTime ?b)" and kt: "num_le time ?k" by simp_all
    have cand: "upper_cand tn time kv"
      using kt by (simp add: upper_cand_def)
    have best: "num_le ?k (tn (fst kv'))" if "kv' \<in> set kvs" "upper_cand tn time kv'" for kv'
      using snoc.IH that le by (auto intro: num_le_trans)
    have self: "num_le ?k ?k"
      using kt num_le_not_NaN num_le_refl by blast
    have "upperTime (val_scan tn time (kvs @ [kv])) = ?k"
      and "upperValue (val_scan tn time (kvs @ [kv])) = snd kv"
      using True by (simp_all add: val_scan_snoc val_step_fields)
    then show ?thesis
      using cand best self by auto
  next
    case False
    then have same: "upperTime (val_scan tn time (kvs @ [kv])) = upperTime ?b"
      "upperValue (val_scan tn time (kvs @ [kv])) = upperValue ?b"
      by (auto simp add: val_scan_snoc val_step_fields)
    show ?thesis
    proof (cases "upper_cand tn time kv")
      case nocand: False
      then show ?thesis
        using snoc.IH same by auto
    next
      case cand: True
      then have kt: "num_le time ?k"
        by (simp add: upper_cand_def)
      with False have notle: "\<not> num_le ?k (upperTime ?b)" by simp
      have knan: "?k \<noteq> NaN"
        using num_le_not_NaN [OF kt] by simp
      have notPInf: "upperTime ?b \<noteq> PInf"
      proof
        assume "upperTime ?b = PInf"
        with notle have "\<not> num_le ?k PInf" by simp
        with num_le_PInf [OF knan] show False by simp
      qed
      from snoc.IH notPInf
      have "\<exists>kv0 \<in> set kvs. upper_cand tn time kv0
         \<and> upperTime ?b = tn (fst kv0) \<and> upperValue ?b = snd kv0
         \<and> (\<forall>kv' \<in> set kvs. upper_cand tn time kv' \<longrightarrow> num_le (tn (fst kv0)) (tn (fst kv')))"
        by (elim disjE) simp_all
      then obtain kv0 where kv0: "kv0 \<in> set kvs" "upper_cand tn time kv0"
        "upperTime ?b = tn (fst kv0)" "upperValue ?b = snd kv0"
        "\<forall>kv' \<in> set kvs. upper_cand tn time kv' \<longrightarrow> num_le (tn (fst kv0)) (tn (fst kv'))"
        by blast
      have "num_le (tn (fst kv0)) ?k"
        using num_le_total [of ?k "tn (fst kv0)"] notle kv0(2,3) kt num_le_not_NaN
        by (auto simp: upper_cand_def)
      then show ?thesis
        using kv0 same by auto
    qed
  qed
qed

lemma val_step_NaN: "tn (fst kv) = NaN \<Longrightarrow> val_step tn time b kv = b"
  by (simp add: val_step_def)

lemma foldl_val_step_filter:
  "foldl (val_step tn time) b kvs = foldl (val_step tn time) b (filter (\<lambda>kv. tn (fst kv) \<noteq> NaN) kvs)"
  by (induction kvs arbitrary: b) (simp_all add: val_step_NaN)

text \<open>
  C9.  A key whose conversion is NaN fails both comparisons of the scan: the step leaves
  the four variables as they are, the scan gives the same result as on the object
  without such keys, neither bound time is ever NaN, and a bound value that was set is
  the value of a key whose conversion is not NaN.
\<close>

theorem val_scan_skips_NaN_keys:
  "(tn (fst kv) = NaN \<longrightarrow> val_step tn time b kv = b)
   \<and> val_scan tn time kvs = val_scan tn time (filter (\<lambda>kv. tn (fst kv) \<noteq> NaN) kvs)
   \<and> lowerTime (val_scan tn time kvs) \<noteq> NaN
   \<and> upperTime (val_scan tn time kvs) \<noteq> NaN
   \<and> (lowerValue (val_scan tn time kvs) \<noteq> Null \<longrightarrow>
        (\<exists>kv \<in> set kvs. tn (fst kv) \<noteq> NaN \<and> lowerTime (val_scan tn time kvs) = tn (fst kv)
           \<and> lowerValue (val_scan tn time kvs) = snd kv))
   \<and> (upperValue (val_scan tn time kvs) \<noteq> Null \<longrightarrow>
        (\<exists>kv \<in> set kvs. tn (fst kv) \<noteq> NaN \<and> upperTime (val_scan tn time kvs) = tn (fst kv)
           \<and> upperValue (val_scan tn time kvs) = snd kv))"
proof -
  have a: "tn (fst kv) = NaN \<longrightarrow> val_step tn time b kv = b"
    by (simp add: val_step_NaN)
  have b: "val_scan tn time kvs = val_scan tn time (filter (\<lambda>kv. tn (fst kv) \<noteq> NaN) kvs)"
    unfolding val_scan_def by (rule foldl_val_step_filter)
  have lo: "lower_cand tn time kv' \<Longrightarrow> tn (fst kv') \<noteq> NaN" for kv'
    using num_le_not_NaN by (auto simp: lower_cand_def)
  have up: "upper_cand tn time kv' \<Longrightarrow> tn (fst kv') \<noteq> NaN" for kv'
    using num_le_not_NaN by (auto simp: upper_cand_def)
  have c: "lowerTime (val_scan tn time kvs) \<noteq> NaN"
    using val_scan_lower [of kvs tn time] lo by auto
  have d: "upperTime (val_scan tn time kvs) \<noteq> NaN"
    using val_scan_upper [of kvs tn time] up by auto
  have e: "lowerValue (val_scan tn time kvs) \<noteq> Null \<longrightarrow>
        (\<exists>kv \<in> set kvs. tn (fst kv) \<noteq> NaN \<and> lowerTime (val_scan tn time kvs) = tn (fst kv)
           \<and> lowerValue (val_scan tn time kvs) = snd kv)"
    using val_scan_lower [of kvs tn time] lo by auto
  have f: "upperValue (val_scan tn time kvs) \<noteq> Null \<longrightarrow>
        (\<exists>kv \<in> set kvs. tn (fst kv) \<noteq> NaN \<and> upperTime (val_scan tn time kvs) = tn (fst kv)
           \<and> upperValue (val_scan tn time kvs) = snd kv)"
    using val_scan_upper [of kvs tn time] up by auto
  show ?thesis
    using a b c d e f by blast
qed


theorem val_scan_skips_NaN_keys_witness:
  "val_step StringToNumber (Fin 5) val_init (''interpolate'', Func 0) = val_init
   \<and> val_scan StringToNumber (Fin 5)
         [(''0'', Num (Fin 0)), (''10'', Num (Fin 100)), (''interpolate'', Func 0)]
       = val_scan StringToNumber (Fin 5) [(''0'', Num (Fin 0)), (''10'', Num (Fin 100))]
   \<and> lowerTime (val_scan StringToNumber (Fin 5)
         [(''0'', Num (Fin 0)), (''10'', Num (Fin 100)), (''interpolate'', Func 0)]) \<noteq> NaN"
proof -
  have nan: "StringToNumber ''interpolate'' = NaN"
    by code_simp
  have n0: "StringToNumber ''0'' = Fin 0"
    by code_simp
  have n10: "StringToNumber ''10'' = Fin 10"
    by code_simp
  note scan = val_scan_skips_NaN_keys [where tn = StringToNumber
      and kv = "(''interpolate'', Func 0)" and time = "Fin 5" and b = val_init
      and kvs = "[(''0'', Num (Fin 0)), (''10'', Num (Fin 100)), (''interpolate'', Func 0)]"]
  from conjunct1 [OF scan]
  have a: "val_step StringToNumber (Fin 5) val_init (''interpolate'', Func 0) = val_init"
    by (simp add: nan)
  from conjunct1 [OF conjunct2 [OF scan]]
  have b: "val_scan StringToNumber (Fin 5)
         [(''0'', Num (Fin 0)), (''10'', Num (Fin 100)), (''interpolate'', Func 0)]
       = val_scan StringToNumber (Fin 5) [(''0'', Num (Fin 0)), (''10'', Num (Fin 100))]"
    by (simp add: nan n0 n10)
  from conjunct1 [OF conjunct2 [OF conjunct2 [OF scan]]] a b
  show ?thesis
    by blast
qed

section \<open>Errors of the interpolator\<close>

lemma call_hasOwnProperty_errors:
  "call_hasOwnProperty call p ps k = Inl e \<Longrightarrow> e = TypeError \<or> (\<exists>x. e = Thrown x)"
  by (auto simp: call_hasOwnProperty_def call_function_def
      split: option.splits jsval.splits sum.splits if_splits)

lemma linearInterp_errors:
  "(linearInterp call x1 x2 t objectKeys = Inl e \<longrightarrow>
      e = TypeMismatchError \<or> e = StructuralMismatchError \<or> e = TypeError \<or> (\<exists>x. e = Thrown x))"
  "(linearInterp_loop call p1 ps1 p2 ps2 t keys int_obj = Inl e \<longrightarrow>
      e = TypeMismatchError \<or> e = StructuralMismatchError \<or> e = TypeError \<or> (\<exists>x. e = Thrown x))"
proof (induction call x1 x2 t objectKeys and call p1 ps1 p2 ps2 t keys int_obj
    rule: linearInterp_linearInterp_loop.induct)
  case (1 call x1 x2 t objectKeys)
  then show ?case
    by (subst linearInterp.simps)
      (auto simp: truthy_array_of split: jsval.splits sum.splits if_splits)
next
  case (2 call p1 ps1 p2 ps2 t int_obj)
  show ?case by simp
next
  case (3 call p1 ps1 p2 ps2 t key keys int_obj)
  show ?case
  proof
    assume fails: "linearInterp_loop call p1 ps1 p2 ps2 t (key # keys) int_obj = Inl e"
    show "e = TypeMismatchError \<or> e = StructuralMismatchError \<or> e = TypeError
        \<or> (\<exists>x. e = Thrown x)"
    proof (cases "call_hasOwnProperty call p1 ps1 key")
      case (Inl e1)
      with fails call_hasOwnProperty_errors [OF Inl] show ?thesis by simp
    next
      case has1: (Inr has1)
      show ?thesis
      proof (cases "if \<not> has1 then Inr False else call_hasOwnProperty call p2 ps2 key")
        case (Inl e2)
        then have "call_hasOwnProperty call p2 ps2 key = Inl e2"
          by (simp split: if_splits)
        from call_hasOwnProperty_errors [OF this] fails has1 Inl show ?thesis by simp
      next
        case has2: (Inr has2)
        show ?thesis
        proof (cases "\<not> has1 \<or> \<not> has2")
          case True
          with fails has1 has2
          have "linearInterp_loop call p1 ps1 p2 ps2 t keys int_obj = Inl e"
            by (simp split: if_splits)
          with "3.IH"(1) [OF has1 has2 True] show ?thesis by simp
        next
          case False
          show ?thesis
          proof (cases "linearInterp call (get_prop p1 ps1 key) (get_prop p2 ps2 key) t None")
            case (Inl e3)
            with fails has1 has2 False have "e3 = e" by (simp split: if_splits)
            with "3.IH"(2) [OF has1 has2 False] Inl show ?thesis by simp
          next
            case (Inr v)
            with fails has1 has2 False
            have "linearInterp_loop call p1 ps1 p2 ps2 t keys
                (assign (fst int_obj) (snd int_obj) key v) = Inl e"
              by (simp split: if_splits)
            with "3.IH"(3) [OF has1 has2 False Inr] show ?thesis by simp
          qed
        qed
      qed
    qed
  qed
qed

section \<open>Missing bounds\<close>

lemma val_keyframes:
  "val tn call (Obj p False ps) element (Some time) =
     (let b = val_scan tn time (entries (Obj p False ps)) in
      if lowerValue b = Null then Inl (MissingLowerBoundError time)
      else if \<not> (typeof (lowerValue b) = ''number'' \<or> typeof (lowerValue b) = ''object'')
      then Inr (lowerValue b)
      else if upperValue b = Null then Inl (MissingUpperBoundError time)
      else if typeof (lowerValue b) \<noteq> typeof (upperValue b) then Inl TypeMismatchError
      else if num_strict_eq (upperTime b) (lowerTime b) then Inr (upperValue b)
      else
        (let percentProgress =
               num_div (num_sub time (lowerTime b)) (num_sub (upperTime b) (lowerTime b));
             interpolate = get_prop p ps ''interpolate'';
             interpolationKeys = get_prop p ps ''interpolationKeys''
         in if truthy interpolate then
              (case interpolate of
                 Func f \<Rightarrow>
                   call_function call f
                     [lowerValue b, upperValue b, Num percentProgress, interpolationKeys]
               | _ \<Rightarrow> Inl TypeError)
            else linearInterp call (lowerValue b) (upperValue b) percentProgress
                   (keys_arg interpolationKeys)))"
  by (simp add: val_def isKeyFrames_iff_object Let_def)

lemma entries_plain: "entries (Obj ObjectPrototype a ps) = for_in ps"
  by (simp add: entries_def for_in_chain_def)

lemma call_function_not_bound:
  "call_function call f args \<noteq> Inl (MissingLowerBoundError t)"
  "call_function call f args \<noteq> Inl (MissingUpperBoundError t)"
  by (simp_all add: call_function_def split: sum.splits)

lemma linearInterp_not_bound:
  "linearInterp call x1 x2 t ks \<noteq> Inl (MissingLowerBoundError t')"
  "linearInterp call x1 x2 t ks \<noteq> Inl (MissingUpperBoundError t')"
  using linearInterp_errors(1) [of call x1 x2 t ks] by auto

lemma val_lower_found:
  assumes "lowerValue (val_scan tn time (entries (Obj p False ps))) \<noteq> Null"
  shows "val tn call (Obj p False ps) element (Some time) \<noteq> Inl (MissingLowerBoundError t')"
  using assms
  by (simp add: val_keyframes Let_def call_function_not_bound linearInterp_not_bound
      split: jsval.splits)

lemma val_lower_missing:
  assumes "lowerValue (val_scan tn time (entries (Obj p False ps))) = Null"
  shows "val tn call (Obj p False ps) element (Some time) = Inl (MissingLowerBoundError time)"
  using assms by (simp add: val_keyframes)

lemma val_upper_missing:
  assumes "lowerValue (val_scan tn time (entries (Obj p False ps))) \<noteq> Null"
    and "typeof (lowerValue (val_scan tn time (entries (Obj p False ps)))) = ''number''
         \<or> typeof (lowerValue (val_scan tn time (entries (Obj p False ps)))) = ''object''"
    and "upperValue (val_scan tn time (entries (Obj p False ps))) = Null"
  shows "val tn call (Obj p False ps) element (Some time) = Inl (MissingUpperBoundError time)"
  using assms by (auto simp add: val_keyframes)

text \<open>
  C3.  As stated the claim fails: with the keys \<open>-1\<close> and \<open>1\<close> and time \<open>0\<close> there is a
  key at or before the time, and resolution fails for want of a lower bound, because the
  scan starts from \<open>lowerTime = 0\<close> and never takes a negative key.
\<close>

theorem val_negative_key_counterexample:
  "StringToNumber ''-1'' = Fin (- 1)
   \<and> num_le (StringToNumber ''-1'') (Fin 0)
   \<and> val StringToNumber no_calls
        (Obj ObjectPrototype False [(''1'', True, Num (Fin 7)), (''-1'', True, Num (Fin 5))])
        Undefined (Some (Fin 0)) = Inl (MissingLowerBoundError (Fin 0))"
proof -
  have m1: "StringToNumber ''-1'' = Fin (- 1)"
    by code_simp
  have p1: "StringToNumber ''1'' = Fin 1"
    by code_simp
  have "lowerValue (val_scan StringToNumber (Fin 0)
          (for_in [(''1'', True, Num (Fin 7)), (''-1'', True, Num (Fin 5))])) = Null"
    by (simp add: for_in_def val_scan_def val_step_def val_init_def m1 p1)
  then show ?thesis
    by (simp add: m1 val_lower_missing entries_plain)
qed

text \<open>
  C3, amended.  For a keyframe set that stores no \<open>null\<close> under a numeric key, in
  any enumeration order and for every time: resolution fails with the missing lower bound
  exactly when no key \<open>k\<close> with \<open>0 <= k <= time\<close> exists, and it fails so whenever no key
  is at or before the time.  When a key in \<open>[0, time]\<close> exists, the lower bound of the
  scan is such a key, at least as large as every key in \<open>[0, time]\<close>, with the value
  stored there; when a key at or after the time exists, the upper bound of the scan is
  such a key, at most as large as every key at or after the time, with the value stored
  there.  When a key in \<open>[0, time]\<close> exists, no key is at or after the time and the
  lower value is a number or an object, resolution fails with the missing upper bound.
\<close>

theorem val_missing_bounds:
  assumes nonnull: "\<forall>kv \<in> set (entries (Obj p False ps)). tn (fst kv) \<noteq> NaN \<longrightarrow> snd kv \<noteq> Null"
  shows "((val tn call (Obj p False ps) element (Some time) = Inl (MissingLowerBoundError time))
           = (\<not> (\<exists>kv \<in> set (entries (Obj p False ps)). lower_cand tn time kv)))
    \<and> ((\<forall>kv \<in> set (entries (Obj p False ps)). \<not> num_le (tn (fst kv)) time) \<longrightarrow>
          val tn call (Obj p False ps) element (Some time) = Inl (MissingLowerBoundError time))
    \<and> ((\<exists>kv \<in> set (entries (Obj p False ps)). lower_cand tn time kv) \<longrightarrow>
          (\<exists>kv \<in> set (entries (Obj p False ps)). lower_cand tn time kv
             \<and> lowerTime (val_scan tn time (entries (Obj p False ps))) = tn (fst kv)
             \<and> lowerValue (val_scan tn time (entries (Obj p False ps))) = snd kv
             \<and> (\<forall>kv' \<in> set (entries (Obj p False ps)).
                   lower_cand tn time kv' \<longrightarrow> num_le (tn (fst kv')) (tn (fst kv)))))
    \<and> ((\<exists>kv \<in> set (entries (Obj p False ps)). upper_cand tn time kv) \<longrightarrow>
          (\<exists>kv \<in> set (entries (Obj p False ps)). upper_cand tn time kv
             \<and> upperTime (val_scan tn time (entries (Obj p False ps))) = tn (fst kv)
             \<and> upperValue (val_scan tn time (entries (Obj p False ps))) = snd kv
             \<and> (\<forall>kv' \<in> set (entries (Obj p False ps)).
                   upper_cand tn time kv' \<longrightarrow> num_le (tn (fst kv)) (tn (fst kv')))))
    \<and> ((\<exists>kv \<in> set (entries (Obj p False ps)). lower_cand tn time kv)
          \<and> (\<forall>kv \<in> set (entries (Obj p False ps)). \<not> num_le time (tn (fst kv)))
          \<and> (typeof (lowerValue (val_scan tn time (entries (Obj p False ps)))) = ''number''
               \<or> typeof (lowerValue (val_scan tn time (entries (Obj p False ps)))) = ''object'')
        \<longrightarrow> val tn call (Obj p False ps) element (Some time) = Inl (MissingUpperBoundError time))"
proof -
  let ?kvs = "entries (Obj p False ps)"
  let ?b = "val_scan tn time ?kvs"
  let ?v = "val tn call (Obj p False ps) element (Some time)"
  have none: "?v = Inl (MissingLowerBoundError time)"
    if "\<not> (\<exists>kv \<in> set ?kvs. lower_cand tn time kv)"
  proof -
    from val_scan_lower [of ?kvs tn time] that have "lowerValue ?b = Null"
      by blast
    then show ?thesis by (rule val_lower_missing)
  qed
  have lower: "\<exists>kv \<in> set ?kvs. lower_cand tn time kv
             \<and> lowerTime ?b = tn (fst kv) \<and> lowerValue ?b = snd kv
             \<and> (\<forall>kv' \<in> set ?kvs. lower_cand tn time kv' \<longrightarrow> num_le (tn (fst kv')) (tn (fst kv)))"
    if "\<exists>kv \<in> set ?kvs. lower_cand tn time kv"
    using val_scan_lower [of ?kvs tn time] that by (elim disjE) simp_all
  have upper: "\<exists>kv \<in> set ?kvs. upper_cand tn time kv
             \<and> upperTime ?b = tn (fst kv) \<and> upperValue ?b = snd kv
             \<and> (\<forall>kv' \<in> set ?kvs. upper_cand tn time kv' \<longrightarrow> num_le (tn (fst kv)) (tn (fst kv')))"
    if "\<exists>kv \<in> set ?kvs. upper_cand tn time kv"
    using val_scan_upper [of ?kvs tn time] that by (elim disjE) simp_all
  have found_nn: "lowerValue ?b \<noteq> Null" if c: "\<exists>kv \<in> set ?kvs. lower_cand tn time kv"
  proof -
    from lower [OF c]
    obtain kv where kv: "kv \<in> set ?kvs" "lower_cand tn time kv" "lowerValue ?b = snd kv"
      by blast
    then have "tn (fst kv) \<noteq> NaN"
      using num_le_not_NaN by (auto simp: lower_cand_def)
    with nonnull kv show ?thesis by simp
  qed
  have first: "(?v = Inl (MissingLowerBoundError time))
           = (\<not> (\<exists>kv \<in> set ?kvs. lower_cand tn time kv))"
    using none found_nn val_lower_found [of tn time p ps call element time] by blast
  have second: "(\<forall>kv \<in> set ?kvs. \<not> num_le (tn (fst kv)) time) \<longrightarrow>
          ?v = Inl (MissingLowerBoundError time)"
    using none by (auto simp: lower_cand_def)
  have last: "?v = Inl (MissingUpperBoundError time)"
    if c: "\<exists>kv \<in> set ?kvs. lower_cand tn time kv"
      and u: "\<forall>kv \<in> set ?kvs. \<not> num_le time (tn (fst kv))"
      and ty: "typeof (lowerValue ?b) = ''number'' \<or> typeof (lowerValue ?b) = ''object''"
  proof -
    from val_scan_upper [of ?kvs tn time] u have "upperValue ?b = Null"
      by (auto simp: upper_cand_def)
    with found_nn [OF c] ty show ?thesis by (intro val_upper_missing)
  qed
  from lower have third: "(\<exists>kv \<in> set ?kvs. lower_cand tn time kv) \<longrightarrow>
          (\<exists>kv \<in> set ?kvs. lower_cand tn time kv
             \<and> lowerTime ?b = tn (fst kv) \<and> lowerValue ?b = snd kv
             \<and> (\<forall>kv' \<in> set ?kvs. lower_cand tn time kv' \<longrightarrow> num_le (tn (fst kv')) (tn (fst kv))))"
    by (rule impI)
  from upper have fourth: "(\<exists>kv \<in> set ?kvs. upper_cand tn time kv) \<longrightarrow>
          (\<exists>kv \<in> set ?kvs. upper_cand tn time kv
             \<and> upperTime ?b = tn (fst kv) \<and> upperValue ?b = snd kv
             \<and> (\<forall>kv' \<in> set ?kvs. upper_cand tn time kv' \<longrightarrow> num_le (tn (fst kv)) (tn (fst kv'))))"
    by (rule impI)
  from last have fifth: "(\<exists>kv \<in> set ?kvs. lower_cand tn time kv)
          \<and> (\<forall>kv \<in> set ?kvs. \<not> num_le time (tn (fst kv)))
          \<and> (typeof (lowerValue ?b) = ''number'' \<or> typeof (lowerValue ?b) = ''object'')
        \<longrightarrow> ?v = Inl (MissingUpperBoundError time)"
    by (intro impI) (elim conjE)
  show ?thesis
    by (rule conjI [OF first conjI [OF second conjI [OF third conjI [OF fourth fifth]]]])
qed

theorem val_missing_bounds_witness:
  "val StringToNumber no_calls
     (Obj ObjectPrototype False [(''1.5'', True, Num (Fin 100)), (''0.5'', True, Num (Fin 0))])
     Undefined (Some (Fin 20)) = Inl (MissingUpperBoundError (Fin 20))
   \<and> lowerTime (val_scan StringToNumber (Fin 20) (entries
        (Obj ObjectPrototype False [(''1.5'', True, Num (Fin 100)), (''0.5'', True, Num (Fin 0))])))
       = Fin (3 / 2)
   \<and> lowerValue (val_scan StringToNumber (Fin 20) (entries
        (Obj ObjectPrototype False [(''1.5'', True, Num (Fin 100)), (''0.5'', True, Num (Fin 0))])))
       = Num (Fin 100)
   \<and> val StringToNumber no_calls
     (Obj ObjectPrototype False [(''5'', True, Num (Fin 0)), (''10'', True, Num (Fin 100))])
     Undefined (Some (Fin 2)) = Inl (MissingLowerBoundError (Fin 2))"
proof -
  let ?ps = "[(''1.5'', True, Num (Fin 100)), (''0.5'', True, Num (Fin 0))]"
  let ?b = "val_scan StringToNumber (Fin 20) (entries (Obj ObjectPrototype False ?ps))"
  have n05: "StringToNumber ''0.5'' = Fin (1 / 2)"
    by code_simp
  have n15: "StringToNumber ''1.5'' = Fin (3 / 2)"
    by code_simp
  have n5: "StringToNumber ''5'' = Fin 5"
    by code_simp
  have n10: "StringToNumber ''10'' = Fin 10"
    by code_simp
  have nonnull: "\<forall>kv \<in> set (entries (Obj ObjectPrototype False ?ps)).
      StringToNumber (fst kv) \<noteq> NaN \<longrightarrow> snd kv \<noteq> Null"
    by (simp add: entries_plain for_in_def)
  note late = val_missing_bounds [OF nonnull, where call = no_calls and element = Undefined
      and time = "Fin 20"]
  have cand: "\<exists>kv \<in> set (entries (Obj ObjectPrototype False ?ps)).
      lower_cand StringToNumber (Fin 20) kv"
    by (simp add: entries_plain for_in_def lower_cand_def n15)
  from conjunct1 [OF conjunct2 [OF conjunct2 [OF late]], THEN mp, OF cand]
  have lower: "lowerTime ?b = Fin (3 / 2) \<and> lowerValue ?b = Num (Fin 100)"
    by (auto simp: entries_plain for_in_def lower_cand_def n05 n15)
  have after: "\<forall>kv \<in> set (entries (Obj ObjectPrototype False ?ps)).
      \<not> num_le (Fin 20) (StringToNumber (fst kv))"
    by (simp add: entries_plain for_in_def n05 n15)
  have ty: "typeof (lowerValue ?b) = ''number'' \<or> typeof (lowerValue ?b) = ''object''"
    using lower by simp
  have a: "val StringToNumber no_calls (Obj ObjectPrototype False ?ps) Undefined (Some (Fin 20))
      = Inl (MissingUpperBoundError (Fin 20))"
    by (rule conjunct2 [OF conjunct2 [OF conjunct2 [OF conjunct2 [OF late]]], THEN mp,
          OF conjI [OF cand conjI [OF after ty]]])
  have nonnull': "\<forall>kv \<in> set (entries (Obj ObjectPrototype False
        [(''5'', True, Num (Fin 0)), (''10'', True, Num (Fin 100))])).
      StringToNumber (fst kv) \<noteq> NaN \<longrightarrow> snd kv \<noteq> Null"
    by (simp add: entries_plain for_in_def)
  have before: "\<forall>kv \<in> set (entries (Obj ObjectPrototype False
        [(''5'', True, Num (Fin 0)), (''10'', True, Num (Fin 100))])).
      \<not> num_le (StringToNumber (fst kv)) (Fin 2)"
    by (simp add: entries_plain for_in_def n5 n10)
  have b: "val StringToNumber no_calls
     (Obj ObjectPrototype False [(''5'', True, Num (Fin 0)), (''10'', True, Num (Fin 100))])
     Undefined (Some (Fin 2)) = Inl (MissingLowerBoundError (Fin 2))"
    by (rule conjunct1 [OF conjunct2 [OF val_missing_bounds [OF nonnull']], THEN mp, OF before])
  show ?thesis
    by (rule conjI [OF a conjI [OF conjunct1 [OF lower] conjI [OF conjunct2 [OF lower] b]]])
qed

section \<open>Exact hits and the midpoint\<close>










section \<open>Interpolation of objects\<close>

lemma own_value_set_prop:
  "own_value (set_prop ps k v) k' = (if k' = k then Some v else own_value ps k')"
  by (induction ps k v rule: set_prop.induct) (auto simp: own_value_def)

lemma keys_set_prop: "fst ` set (set_prop ps k v) = insert k (fst ` set ps)"
  by (induction ps k v rule: set_prop.induct) auto

lemma hasOwnProperty_iff: "hasOwnProperty ps k = (k \<in> fst ` set ps)"
  by (simp add: hasOwnProperty_def map_of_eq_None_iff)

lemma hasOwnProperty_own_value: "hasOwnProperty ps k = (own_value ps k \<noteq> None)"
  by (simp add: hasOwnProperty_def own_value_def)

lemma hasOwnProperty_set_prop:
  "hasOwnProperty (set_prop ps k v) k' = (k' = k \<or> hasOwnProperty ps k')"
  by (auto simp: hasOwnProperty_iff keys_set_prop)

lemma enumerable_set_prop:
  "(\<forall>x \<in> set ps. fst (snd x)) \<Longrightarrow> (\<forall>x \<in> set (set_prop ps k v). fst (snd x))"
  by (induction ps k v rule: set_prop.induct) auto

lemma own_keys_hasOwnProperty: "k \<in> set (own_keys ps) \<Longrightarrow> hasOwnProperty ps k"
  by (force simp: own_keys_def hasOwnProperty_iff)

lemma get_prop_own: "own_value ps k = Some v \<Longrightarrow> get_prop p ps k = v"
  by (auto simp: own_value_def get_prop_def lookup_def)

lemma assign_plain: "k \<noteq> ''__proto__'' \<Longrightarrow> assign p ps k v = (p, set_prop ps k v)"
  by (simp add: assign_def)

lemma linearInterp_loop_step:
  assumes "lookup p ps1 ''hasOwnProperty'' = None" and "lookup p ps2 ''hasOwnProperty'' = None"
    and "inherits_Object_prototype p"
    and "\<not> (hasOwnProperty ps1 ''__proto__'' \<and> hasOwnProperty ps2 ''__proto__'')"
  shows "linearInterp_loop call p ps1 p ps2 t (key # keys) (q, int0) =
     (if \<not> hasOwnProperty ps1 key \<or> \<not> hasOwnProperty ps2 key
      then linearInterp_loop call p ps1 p ps2 t keys (q, int0)
      else
        (case linearInterp call (get_prop p ps1 key) (get_prop p ps2 key) t None of
           Inl e \<Rightarrow> Inl e
         | Inr v \<Rightarrow> linearInterp_loop call p ps1 p ps2 t keys (q, set_prop int0 key v)))"
proof (cases "hasOwnProperty ps1 key \<and> hasOwnProperty ps2 key")
  case True
  with assms(4) have "key \<noteq> ''__proto__''"
    by auto
  with assms(1-3) show ?thesis
    by (simp add: call_hasOwnProperty_builtin assign_plain cong: sum.case_cong)
next
  case False
  with assms(1-3) show ?thesis
    by (auto simp: call_hasOwnProperty_builtin)
qed

lemma linearInterp_loop_result:
  assumes h1: "lookup p ps1 ''hasOwnProperty'' = None"
    and h2: "lookup p ps2 ''hasOwnProperty'' = None"
    and obj: "inherits_Object_prototype p"
    and np: "\<not> (hasOwnProperty ps1 ''__proto__'' \<and> hasOwnProperty ps2 ''__proto__'')"
  shows "linearInterp_loop call p ps1 p ps2 t keys (q, int0) = Inr r \<Longrightarrow>
     fst r = q
     \<and> fst ` set (snd r) =
         fst ` set int0 \<union> {k \<in> set keys. hasOwnProperty ps1 k \<and> hasOwnProperty ps2 k}
     \<and> (\<forall>k \<in> set keys. hasOwnProperty ps1 k \<and> hasOwnProperty ps2 k \<longrightarrow>
           (\<exists>v. linearInterp call (get_prop p ps1 k) (get_prop p ps2 k) t None = Inr v
              \<and> own_value (snd r) k = Some v))
     \<and> (\<forall>k. k \<notin> set keys \<longrightarrow> own_value (snd r) k = own_value int0 k)
     \<and> ((\<forall>x \<in> set int0. fst (snd x)) \<longrightarrow> (\<forall>x \<in> set (snd r). fst (snd x)))"
proof (induction keys arbitrary: int0)
  case Nil
  then show ?case by auto
next
  case (Cons key keys)
  note step = linearInterp_loop_step [OF h1 h2 obj np,
      where call = call and key = key and t = t and keys = keys and q = q and ?int0.0 = int0]
  show ?case
  proof (cases "hasOwnProperty ps1 key \<and> hasOwnProperty ps2 key")
    case False
    with Cons.prems(1) step have "linearInterp_loop call p ps1 p ps2 t keys (q, int0) = Inr r"
      by auto
    from Cons.IH [OF this] False show ?thesis
      by auto
  next
    case True
    with Cons.prems(1) step obtain v where
      v: "linearInterp call (get_prop p ps1 key) (get_prop p ps2 key) t None = Inr v"
      and rest: "linearInterp_loop call p ps1 p ps2 t keys (q, set_prop int0 key v) = Inr r"
      by (auto split: sum.splits)
    note ih = Cons.IH [OF rest]
    have keyval: "\<exists>v. linearInterp call (get_prop p ps1 key) (get_prop p ps2 key) t None = Inr v
        \<and> own_value (snd r) key = Some v"
    proof (cases "key \<in> set keys")
      case True
      with ih \<open>hasOwnProperty ps1 key \<and> hasOwnProperty ps2 key\<close> show ?thesis by blast
    next
      case False
      with ih have "own_value (snd r) key = own_value (set_prop int0 key v) key" by blast
      with v show ?thesis by (simp add: own_value_set_prop)
    qed
    have z: "fst r = q"
      using ih by simp
    have a: "fst ` set (snd r) =
       fst ` set int0 \<union> {k \<in> set (key # keys). hasOwnProperty ps1 k \<and> hasOwnProperty ps2 k}"
      using ih True by (auto simp: keys_set_prop)
    have b: "\<forall>k \<in> set (key # keys). hasOwnProperty ps1 k \<and> hasOwnProperty ps2 k \<longrightarrow>
           (\<exists>v. linearInterp call (get_prop p ps1 k) (get_prop p ps2 k) t None = Inr v
              \<and> own_value (snd r) k = Some v)"
      using ih keyval by simp
    have c: "\<forall>k. k \<notin> set (key # keys) \<longrightarrow> own_value (snd r) k = own_value int0 k"
      using ih by (simp add: own_value_set_prop)
    have d: "(\<forall>x \<in> set int0. fst (snd x)) \<longrightarrow> (\<forall>x \<in> set (snd r). fst (snd x))"
      using ih enumerable_set_prop [of int0 key v] by blast
    show ?thesis
      by (rule conjI [OF z conjI [OF a conjI [OF b conjI [OF c d]]]])
  qed
qed

lemma linearInterp_loop_total:
  assumes h1: "lookup p ps1 ''hasOwnProperty'' = None"
    and h2: "lookup p ps2 ''hasOwnProperty'' = None"
    and obj: "inherits_Object_prototype p"
    and np: "\<not> (hasOwnProperty ps1 ''__proto__'' \<and> hasOwnProperty ps2 ''__proto__'')"
  shows "(\<forall>k \<in> set keys. hasOwnProperty ps1 k \<and> hasOwnProperty ps2 k \<longrightarrow>
        (\<exists>v. linearInterp call (get_prop p ps1 k) (get_prop p ps2 k) t None = Inr v))
     \<Longrightarrow> \<exists>r. linearInterp_loop call p ps1 p ps2 t keys (q, int0) = Inr r"
proof (induction keys arbitrary: int0)
  case Nil
  show ?case by simp
next
  case (Cons key keys)
  from Cons.prems(1) have rest: "\<forall>k \<in> set keys. hasOwnProperty ps1 k \<and> hasOwnProperty ps2 k \<longrightarrow>
        (\<exists>v. linearInterp call (get_prop p ps1 k) (get_prop p ps2 k) t None = Inr v)"
    by simp
  show ?case
  proof (cases "hasOwnProperty ps1 key \<and> hasOwnProperty ps2 key")
    case False
    with Cons.IH [OF rest, of int0] show ?thesis
      by (simp add: linearInterp_loop_step [OF h1 h2 obj np] del: linearInterp_loop.simps)
  next
    case True
    with Cons.prems(1) obtain v where
      "linearInterp call (get_prop p ps1 key) (get_prop p ps2 key) t None = Inr v"
      by auto
    with True Cons.IH [OF rest, of "set_prop int0 key v"] show ?thesis
      by (simp add: linearInterp_loop_step [OF h1 h2 obj np] del: linearInterp_loop.simps)
  qed
qed

lemma linearInterp_loop_failure:
  assumes h1: "lookup p ps1 ''hasOwnProperty'' = None"
    and h2: "lookup p ps2 ''hasOwnProperty'' = None"
    and obj: "inherits_Object_prototype p"
    and np: "\<not> (hasOwnProperty ps1 ''__proto__'' \<and> hasOwnProperty ps2 ''__proto__'')"
  shows "linearInterp_loop call p ps1 p ps2 t keys (q, int0) = Inl e \<Longrightarrow>
     \<exists>k \<in> set keys. hasOwnProperty ps1 k \<and> hasOwnProperty ps2 k
        \<and> linearInterp call (get_prop p ps1 k) (get_prop p ps2 k) t None = Inl e"
proof (induction keys arbitrary: int0)
  case Nil
  then show ?case by simp
next
  case (Cons key keys)
  note step = linearInterp_loop_step [OF h1 h2 obj np,
      where call = call and key = key and t = t and keys = keys and q = q and ?int0.0 = int0]
  show ?case
  proof (cases "hasOwnProperty ps1 key \<and> hasOwnProperty ps2 key")
    case False
    with Cons.prems(1) step have "linearInterp_loop call p ps1 p ps2 t keys (q, int0) = Inl e"
      by auto
    from Cons.IH [OF this] show ?thesis by auto
  next
    case True
    show ?thesis
    proof (cases "linearInterp call (get_prop p ps1 key) (get_prop p ps2 key) t None")
      case (Inl e')
      with Cons.prems(1) step True have "e' = e" by simp
      with Inl True show ?thesis by auto
    next
      case (Inr v)
      with Cons.prems(1) step True
      have "linearInterp_loop call p ps1 p ps2 t keys (q, set_prop int0 key v) = Inl e"
        by simp
      from Cons.IH [OF this] show ?thesis by auto
    qed
  qed
qed

lemma linearInterp_Obj:
  "linearInterp call (Obj p a1 ps1) (Obj p a2 ps2) t ks =
     (case linearInterp_loop call p ps1 p ps2 t (own_keys ps1) (p, []) of
        Inl e \<Rightarrow> Inl e
      | Inr int_obj \<Rightarrow> Inr (Obj (fst int_obj) False (snd int_obj)))"
  by (simp add: linearInterp.simps truthy_array_of)

text \<open>
  C4.  As stated the claim fails: \<open>{x: 0}\<close> and \<open>{x: "s"}\<close> are two plain objects with
  the same prototype and the same key, and interpolating them returns nothing: the
  recursive call throws the type mismatch.
\<close>

theorem linearInterp_nested_mismatch_counterexample:
  "linearInterp no_calls (Obj ObjectPrototype False [(''x'', True, Num (Fin 0))])
     (Obj ObjectPrototype False [(''x'', True, Str ''s'')]) (Fin (1 / 2)) None
     = Inl TypeMismatchError"
  by (simp add: linearInterp_Obj own_keys_def call_hasOwnProperty_builtin lookup_def
      hasOwnProperty_def get_prop_def linearInterp.simps [of _ "Num (Fin 0)"])

text \<open>
  C4, amended.  Let \<open>a\<close> and \<open>b\<close> be objects that are not arrays, with the same
  prototype, neither having nor inheriting from an object a property named
  \<open>hasOwnProperty\<close>, their chain passing through \<open>Object.prototype\<close>, every key that is
  an own key of both enumerable on \<open>a\<close>, and \<open>__proto__\<close> not an own key of both.  At
  any \<open>t\<close>: when linear
  interpolation returns, the result is a new ordinary object with the prototype of \<open>a\<close>
  whose keys, all enumerable, are exactly the keys that are own keys of both \<open>a\<close> and
  \<open>b\<close>, each holding the recursive interpolation of the two values; it does return when
  every such pair of values interpolates; and when it fails, it is with the error of
  such a pair.
\<close>

theorem linearInterp_structured:
  assumes h1: "lookup p ps1 ''hasOwnProperty'' = None"
    and h2: "lookup p ps2 ''hasOwnProperty'' = None"
    and obj: "inherits_Object_prototype p"
    and enum: "\<forall>k. hasOwnProperty ps1 k \<and> hasOwnProperty ps2 k \<longrightarrow> k \<in> set (own_keys ps1)"
    and np: "\<not> (hasOwnProperty ps1 ''__proto__'' \<and> hasOwnProperty ps2 ''__proto__'')"
  shows "(linearInterp call (Obj p False ps1) (Obj p False ps2) t ks = Inr r \<longrightarrow>
      (\<exists>int_obj. r = Obj p False int_obj
         \<and> fst ` set int_obj = {k. hasOwnProperty ps1 k \<and> hasOwnProperty ps2 k}
         \<and> (\<forall>x \<in> set int_obj. fst (snd x))
         \<and> (\<forall>k. hasOwnProperty ps1 k \<and> hasOwnProperty ps2 k \<longrightarrow>
               (\<exists>v. linearInterp call (get_prop p ps1 k) (get_prop p ps2 k) t None = Inr v
                  \<and> own_value int_obj k = Some v))))
   \<and> ((\<forall>k. hasOwnProperty ps1 k \<and> hasOwnProperty ps2 k \<longrightarrow>
          (\<exists>v. linearInterp call (get_prop p ps1 k) (get_prop p ps2 k) t None = Inr v))
        \<longrightarrow> (\<exists>r. linearInterp call (Obj p False ps1) (Obj p False ps2) t ks = Inr r))
   \<and> (linearInterp call (Obj p False ps1) (Obj p False ps2) t ks = Inl e \<longrightarrow>
        (\<exists>k. hasOwnProperty ps1 k \<and> hasOwnProperty ps2 k
           \<and> linearInterp call (get_prop p ps1 k) (get_prop p ps2 k) t None = Inl e))"
proof (intro conjI impI)
  {
    assume "linearInterp call (Obj p False ps1) (Obj p False ps2) t ks = Inr r"
    then obtain res where r: "r = Obj (fst res) False (snd res)"
      and loop: "linearInterp_loop call p ps1 p ps2 t (own_keys ps1) (p, []) = Inr res"
      by (auto simp: linearInterp_Obj split: sum.splits)
    note res = linearInterp_loop_result [OF h1 h2 obj np loop]
    have "fst res = p"
      using res by simp
    moreover have "fst ` set (snd res) = {k. hasOwnProperty ps1 k \<and> hasOwnProperty ps2 k}"
    proof -
      have "fst ` set (snd res)
          = {k \<in> set (own_keys ps1). hasOwnProperty ps1 k \<and> hasOwnProperty ps2 k}"
        using res by simp
      also have "\<dots> = {k. hasOwnProperty ps1 k \<and> hasOwnProperty ps2 k}"
        using enum by blast
      finally show ?thesis .
    qed
    moreover have "\<forall>x \<in> set (snd res). fst (snd x)"
      using res by simp
    moreover have "\<forall>k. hasOwnProperty ps1 k \<and> hasOwnProperty ps2 k \<longrightarrow>
             (\<exists>v. linearInterp call (get_prop p ps1 k) (get_prop p ps2 k) t None = Inr v
                \<and> own_value (snd res) k = Some v)"
    proof (intro allI impI)
      fix k
      assume both: "hasOwnProperty ps1 k \<and> hasOwnProperty ps2 k"
      with enum have "k \<in> set (own_keys ps1)"
        by blast
      with res both show "\<exists>v. linearInterp call (get_prop p ps1 k) (get_prop p ps2 k) t None
          = Inr v \<and> own_value (snd res) k = Some v"
        by blast
    qed
    ultimately have "fst res = p"
      and "fst ` set (snd res) = {k. hasOwnProperty ps1 k \<and> hasOwnProperty ps2 k}"
      and "\<forall>x \<in> set (snd res). fst (snd x)"
      and "\<forall>k. hasOwnProperty ps1 k \<and> hasOwnProperty ps2 k \<longrightarrow>
             (\<exists>v. linearInterp call (get_prop p ps1 k) (get_prop p ps2 k) t None = Inr v
                \<and> own_value (snd res) k = Some v)"
      by blast+
    with r show "\<exists>int_obj. r = Obj p False int_obj
         \<and> fst ` set int_obj = {k. hasOwnProperty ps1 k \<and> hasOwnProperty ps2 k}
         \<and> (\<forall>x \<in> set int_obj. fst (snd x))
         \<and> (\<forall>k. hasOwnProperty ps1 k \<and> hasOwnProperty ps2 k \<longrightarrow>
               (\<exists>v. linearInterp call (get_prop p ps1 k) (get_prop p ps2 k) t None = Inr v
                  \<and> own_value int_obj k = Some v))"
      by (intro exI [of _ "snd res"]) simp
  }
  {
    assume "\<forall>k. hasOwnProperty ps1 k \<and> hasOwnProperty ps2 k \<longrightarrow>
          (\<exists>v. linearInterp call (get_prop p ps1 k) (get_prop p ps2 k) t None = Inr v)"
    then have "\<exists>res. linearInterp_loop call p ps1 p ps2 t (own_keys ps1) (p, []) = Inr res"
      by (intro linearInterp_loop_total [OF h1 h2 obj np]) blast
    then show "\<exists>r. linearInterp call (Obj p False ps1) (Obj p False ps2) t ks = Inr r"
      by (auto simp: linearInterp_Obj)
  }
  {
    assume "linearInterp call (Obj p False ps1) (Obj p False ps2) t ks = Inl e"
    then have "linearInterp_loop call p ps1 p ps2 t (own_keys ps1) (p, []) = Inl e"
      by (auto simp: linearInterp_Obj split: sum.splits)
    from linearInterp_loop_failure [OF h1 h2 obj np this]
    show "\<exists>k. hasOwnProperty ps1 k \<and> hasOwnProperty ps2 k
           \<and> linearInterp call (get_prop p ps1 k) (get_prop p ps2 k) t None = Inl e"
      by blast
  }
qed

theorem linearInterp_structured_witness:
  "(\<exists>int_obj. linearInterp no_calls
        (Obj ObjectPrototype False [(''x'', True, Num (Fin 0)), (''y'', True, Num (Fin 0))])
        (Obj ObjectPrototype False [(''x'', True, Num (Fin 10))]) (Fin (1 / 2)) None
      = Inr (Obj ObjectPrototype False int_obj)
      \<and> fst ` set int_obj = {''x''} \<and> own_value int_obj ''x'' = Some (Num (Fin 5)))
   \<and> (\<exists>k. hasOwnProperty [(''x'', True, Num (Fin 0))] k
         \<and> hasOwnProperty [(''x'', True, Str ''s'')] k
         \<and> linearInterp no_calls (get_prop ObjectPrototype [(''x'', True, Num (Fin 0))] k)
              (get_prop ObjectPrototype [(''x'', True, Str ''s'')] k) (Fin (1 / 2)) None
            = Inl TypeMismatchError)"
proof -
  let ?a = "[(''x'', True, Num (Fin 0)), (''y'', True, Num (Fin 0))]"
  let ?b = "[(''x'', True, Num (Fin 10))]"
  have h1: "lookup ObjectPrototype ?a ''hasOwnProperty'' = None"
    and h2: "lookup ObjectPrototype ?b ''hasOwnProperty'' = None"
    and obj: "inherits_Object_prototype ObjectPrototype"
    and enum: "\<forall>k. hasOwnProperty ?a k \<and> hasOwnProperty ?b k \<longrightarrow> k \<in> set (own_keys ?a)"
    and noproto: "\<not> (hasOwnProperty ?a ''__proto__'' \<and> hasOwnProperty ?b ''__proto__'')"
    by (simp_all add: lookup_def hasOwnProperty_def own_keys_def)
  note structured = linearInterp_structured [OF h1 h2 obj enum noproto,
      where call = no_calls and t = "Fin (1 / 2)" and ks = None]
  have keys: "{k. hasOwnProperty ?a k \<and> hasOwnProperty ?b k} = {''x''}"
    by (auto simp: hasOwnProperty_def split: if_splits)
  have x: "linearInterp no_calls (get_prop ObjectPrototype ?a ''x'')
      (get_prop ObjectPrototype ?b ''x'') (Fin (1 / 2)) None = Inr (Num (Fin 5))"
    by (simp add: get_prop_def lookup_def linearInterp.simps num_sub_def
        round_double_0 round_double_half round_double_5)
  have kx: "hasOwnProperty ?a ''x'' \<and> hasOwnProperty ?b ''x''"
    by (simp add: hasOwnProperty_def)
  have each: "\<forall>k. hasOwnProperty ?a k \<and> hasOwnProperty ?b k \<longrightarrow>
          (\<exists>v. linearInterp no_calls (get_prop ObjectPrototype ?a k)
                  (get_prop ObjectPrototype ?b k) (Fin (1 / 2)) None = Inr v)"
  proof (intro allI impI)
    fix k
    assume "hasOwnProperty ?a k \<and> hasOwnProperty ?b k"
    then have "k \<in> {k. hasOwnProperty ?a k \<and> hasOwnProperty ?b k}"
      by simp
    then have "k = ''x''"
      unfolding keys by simp
    with x show "\<exists>v. linearInterp no_calls (get_prop ObjectPrototype ?a k)
        (get_prop ObjectPrototype ?b k) (Fin (1 / 2)) None = Inr v"
      by simp
  qed
  from conjunct1 [OF conjunct2 [OF structured], THEN mp, OF each]
  obtain r where r: "linearInterp no_calls (Obj ObjectPrototype False ?a)
      (Obj ObjectPrototype False ?b) (Fin (1 / 2)) None = Inr r" ..
  from conjunct1 [OF structured [where r = r], THEN mp, OF r]
  obtain int_obj where int_obj: "r = Obj ObjectPrototype False int_obj"
    "fst ` set int_obj = {k. hasOwnProperty ?a k \<and> hasOwnProperty ?b k}"
    "\<forall>k. hasOwnProperty ?a k \<and> hasOwnProperty ?b k \<longrightarrow>
       (\<exists>v. linearInterp no_calls (get_prop ObjectPrototype ?a k)
               (get_prop ObjectPrototype ?b k) (Fin (1 / 2)) None = Inr v
          \<and> own_value int_obj k = Some v)"
    by (elim exE conjE)
  from int_obj(3) [rule_format, OF kx]
  obtain v where v: "linearInterp no_calls (get_prop ObjectPrototype ?a ''x'')
      (get_prop ObjectPrototype ?b ''x'') (Fin (1 / 2)) None = Inr v"
    and own: "own_value int_obj ''x'' = Some v"
    by (elim exE conjE)
  have "(Inr v :: error + jsval) = Inr (Num (Fin 5))"
    by (rule trans [OF v [symmetric] x])
  then have "v = Num (Fin 5)"
    by (simp only: sum.inject)
  with own have val_x: "own_value int_obj ''x'' = Some (Num (Fin 5))"
    by simp
  have res: "linearInterp no_calls (Obj ObjectPrototype False ?a) (Obj ObjectPrototype False ?b)
        (Fin (1 / 2)) None = Inr (Obj ObjectPrototype False int_obj)"
    unfolding int_obj(1) [symmetric] by (rule r)
  have ks: "fst ` set int_obj = {''x''}"
    by (rule trans [OF int_obj(2) keys])
  have first: "\<exists>int_obj. linearInterp no_calls
        (Obj ObjectPrototype False ?a) (Obj ObjectPrototype False ?b) (Fin (1 / 2)) None
      = Inr (Obj ObjectPrototype False int_obj)
      \<and> fst ` set int_obj = {''x''} \<and> own_value int_obj ''x'' = Some (Num (Fin 5))"
    by (rule exI [of _ int_obj], rule conjI [OF res conjI [OF ks val_x]])
  have fails: "linearInterp no_calls (Obj ObjectPrototype False [(''x'', True, Num (Fin 0))])
      (Obj ObjectPrototype False [(''x'', True, Str ''s'')]) (Fin (1 / 2)) None
      = Inl TypeMismatchError"
    by (simp add: linearInterp_Obj own_keys_def call_hasOwnProperty_builtin lookup_def
        hasOwnProperty_def get_prop_def linearInterp.simps [of _ "Num (Fin 0)"])
  have g1: "lookup ObjectPrototype [(''x'', True, Num (Fin 0))] ''hasOwnProperty'' = None"
    and g2: "lookup ObjectPrototype [(''x'', True, Str ''s'')] ''hasOwnProperty'' = None"
    and genum: "\<forall>k. hasOwnProperty [(''x'', True, Num (Fin 0))] k
        \<and> hasOwnProperty [(''x'', True, Str ''s'')] k
        \<longrightarrow> k \<in> set (own_keys [(''x'', True, Num (Fin 0))])"
    and gnoproto: "\<not> (hasOwnProperty [(''x'', True, Num (Fin 0))] ''__proto__''
        \<and> hasOwnProperty [(''x'', True, Str ''s'')] ''__proto__'')"
    by (simp_all add: lookup_def hasOwnProperty_def own_keys_def)
  from conjunct2 [OF conjunct2 [OF linearInterp_structured [OF g1 g2 obj genum gnoproto]],
      THEN mp, OF fails]
  have second: "\<exists>k. hasOwnProperty [(''x'', True, Num (Fin 0))] k
         \<and> hasOwnProperty [(''x'', True, Str ''s'')] k
         \<and> linearInterp no_calls (get_prop ObjectPrototype [(''x'', True, Num (Fin 0))] k)
              (get_prop ObjectPrototype [(''x'', True, Str ''s'')] k) (Fin (1 / 2)) None
            = Inl TypeMismatchError" .
  from first second show ?thesis
    by (rule conjI)
qed

text \<open>
  Outside these conditions the loop does other things.  Two arrays give an ordinary
  object with the indexed keys.  An own property named \<open>hasOwnProperty\<close> is what the
  loop calls: a number there is the host's \<open>TypeError\<close>.  For an own key \<open>__proto__\<close>
  the assignment runs the setter of \<open>Object.prototype\<close>: the interpolated value becomes
  the prototype of the result, which has no such key.
\<close>

lemma linearInterp_arrays:
  "linearInterp no_calls (array_of [Num (Fin 0)]) (array_of [Num (Fin 10)]) (Fin (1 / 2)) None
     = Inr (Obj ArrayPrototype False [(''0'', True, Num (Fin 5))])"
proof -
  have a0: "array_of [Num (Fin 0)]
      = Obj ArrayPrototype True [(''0'', True, Num (Fin 0)), (''length'', False, Num (Fin 1))]"
    by code_simp
  have a10: "array_of [Num (Fin 10)]
      = Obj ArrayPrototype True [(''0'', True, Num (Fin 10)), (''length'', False, Num (Fin 1))]"
    by code_simp
  have num: "linearInterp no_calls (Num (Fin 0)) (Num (Fin 10)) (Fin (1 / 2)) None
      = Inr (Num (Fin 5))"
    by (simp add: linearInterp.simps num_sub_def round_double_0 round_double_half round_double_5)
  show ?thesis
    by (simp add: a0 a10 linearInterp_Obj own_keys_def call_hasOwnProperty_builtin lookup_def
        hasOwnProperty_def get_prop_def num assign_plain)
qed

lemma linearInterp_own_hasOwnProperty:
  "linearInterp call (Obj ObjectPrototype False [(''hasOwnProperty'', True, Num (Fin 1))])
     (Obj ObjectPrototype False [(''hasOwnProperty'', True, Num (Fin 2))]) t None
     = Inl TypeError"
  by (simp add: linearInterp_Obj own_keys_def call_hasOwnProperty_def lookup_def)

lemma linearInterp_proto_key:
  "linearInterp no_calls
     (Obj ObjectPrototype False [(''__proto__'', True, Obj ObjectPrototype False [])])
     (Obj ObjectPrototype False [(''__proto__'', True, Obj ObjectPrototype False [])]) t None
     = Inr (Obj (ValuePrototype (Obj ObjectPrototype False [])) False [])"
proof -
  have empty: "linearInterp no_calls (Obj ObjectPrototype False []) (Obj ObjectPrototype False [])
      t None = Inr (Obj ObjectPrototype False [])"
    by (simp add: linearInterp_Obj own_keys_def)
  show ?thesis
    by (simp add: linearInterp_Obj own_keys_def call_hasOwnProperty_builtin lookup_def
        hasOwnProperty_def get_prop_def empty assign_def)
qed

section \<open>Termination of the breadth-first merge\<close>

lemma getDefaultOptions_loop_returns:
  assumes wf: "wf ((source_graph classes clazz)\<inverse>)"
  shows "(\<forall>c \<in> set queue. (clazz, c) \<in> (inherits classes)\<^sup>*) \<Longrightarrow>
           \<exists>d. getDefaultOptions_loop classes queue merged = Some d"
proof -
  let ?r = "(source_graph classes clazz)\<inverse>"
  have "\<forall>queue merged. mset queue = M \<longrightarrow> (\<forall>c \<in> set queue. (clazz, c) \<in> (inherits classes)\<^sup>*)
          \<longrightarrow> (\<exists>d. getDefaultOptions_loop classes queue merged = Some d)" for M
  proof (induction M rule: wf_induct_rule [OF wf_mult [OF wf]])
    case (1 M)
    show ?case
    proof (intro allI impI)
      fix queue merged
      assume M: "mset queue = M"
        and reach: "\<forall>c \<in> set queue. (clazz, c) \<in> (inherits classes)\<^sup>*"
      show "\<exists>d. getDefaultOptions_loop classes queue merged = Some d"
      proof (cases queue)
        case Nil
        then show ?thesis by (simp add: getDefaultOptions_loop_Nil)
      next
        case (Cons c rest)
        let ?next = "rest @ inheritedDefaultOptions (classes c)"
        have c: "(clazz, c) \<in> (inherits classes)\<^sup>*"
          using reach Cons by simp
        have edge: "(c, d) \<in> source_graph classes clazz"
          if "d \<in> set (inheritedDefaultOptions (classes c))" for d
          using that c by (simp add: source_graph_def inherits_def)
        have "(mset rest + mset (inheritedDefaultOptions (classes c)), mset rest + {#c#})
            \<in> mult ?r"
          by (rule one_step_implies_mult) (auto simp: edge)
        then have smaller: "(mset ?next, M) \<in> mult ?r"
          using M Cons by simp
        have reach': "\<forall>d \<in> set ?next. (clazz, d) \<in> (inherits classes)\<^sup>*"
        proof
          fix d assume "d \<in> set ?next"
          then consider "d \<in> set rest" | "d \<in> set (inheritedDefaultOptions (classes c))"
            by auto
          then show "(clazz, d) \<in> (inherits classes)\<^sup>*"
          proof cases
            case 1
            with reach Cons show ?thesis by simp
          next
            case 2
            then have "(c, d) \<in> inherits classes" by (simp add: inherits_def)
            with c show ?thesis by (rule rtrancl_into_rtrancl)
          qed
        qed
        from "1.IH" [OF smaller] reach'
        obtain d where "getDefaultOptions_loop classes ?next
            (object_spread merged (defaultOptions (classes c))) = Some d"
          by blast
        then show ?thesis
          by (simp add: Cons getDefaultOptions_loop_Cons)
      qed
    qed
  qed
  then show "(\<forall>c \<in> set queue. (clazz, c) \<in> (inherits classes)\<^sup>*) \<Longrightarrow>
           \<exists>d. getDefaultOptions_loop classes queue merged = Some d"
    by blast
qed

text \<open>
  C10.  When the graph of inherited sources reachable from a class is finite and
  acyclic, the breadth-first merge returns a mapping.  A source reached along several
  paths is enqueued once per path: the queue, as a multiset, gets smaller at every step
  in the multiset order of the graph.
\<close>

theorem getDefaultOptions_terminates:
  assumes "finite (source_graph classes clazz)" and "acyclic (source_graph classes clazz)"
  shows "\<exists>merged. getDefaultOptions classes clazz = Some merged"
proof -
  have "wf ((source_graph classes clazz)\<inverse>)"
    using assms by (rule finite_acyclic_wf_converse)
  from getDefaultOptions_loop_returns [OF this, of "[clazz]" "[]"]
  show ?thesis
    by (simp add: getDefaultOptions_def)
qed

lemma inherits_inheriting:
  "inherits inheriting = {(0, 1), (0, 2), (3, 1), (4, 0), (4, 3)}"
  by (auto simp: inherits_def inheriting_def split: if_splits)

theorem getDefaultOptions_terminates_witness:
  "\<exists>merged. getDefaultOptions inheriting 4 = Some merged"
proof -
  have sub: "source_graph inheriting 4 \<subseteq> {(0, 1), (0, 2), (3, 1), (4, 0), (4, 3)}"
    by (auto simp: source_graph_def inherits_inheriting)
  have fin: "finite (source_graph inheriting 4)"
    using sub by (rule finite_subset) simp
  have "({(0, 1), (0, 2), (3, 1), (4, 0), (4, 3)} :: (nat \<times> nat) set)\<inverse>
      \<subseteq> measure (\<lambda>n. if n = 4 then 2 else if n = 0 \<or> n = 3 then 1 else 0)"
    by auto
  then have "wf (({(0, 1), (0, 2), (3, 1), (4, 0), (4, 3)} :: (nat \<times> nat) set)\<inverse>)"
    by (rule wf_subset [OF wf_measure])
  then have "acyclic (({(0, 1), (0, 2), (3, 1), (4, 0), (4, 3)} :: (nat \<times> nat) set)\<inverse>)"
    by (rule wf_acyclic)
  then have "acyclic ({(0, 1), (0, 2), (3, 1), (4, 0), (4, 3)} :: (nat \<times> nat) set)"
    by (simp only: acyclic_converse)
  then have acyc: "acyclic (source_graph inheriting 4)"
    using sub by (rule acyclic_subset)
  show ?thesis
    using fin acyc by (rule getDefaultOptions_terminates)
qed

text \<open>
  In the example table \<open>A\<close> is reached from \<open>E\<close> through \<open>C\<close> and through \<open>D\<close>, and
  merged twice.  On the table with a cycle the walk does not end.
\<close>

lemma getDefaultOptions_diamond:
  "getDefaultOptions inheriting 4 = Some [(''j'', True, Str ''e''), (''k'', True, Num (Fin 1))]"
  by (simp add: getDefaultOptions_def getDefaultOptions_loop_Nil getDefaultOptions_loop_Cons
      inheriting_def object_spread_def spread_into_def for_in_def)


lemma getDefaultOptions_loop_cycle:
  assumes "getDefaultOptions_loop classes queue merged = Some d"
  shows "classes = self_inheriting \<longrightarrow> queue = []"
  using assms
proof (induction rule: getDefaultOptions_loop.raw_induct [rotated, consumes 1, case_names step])
  case (step loop classes queue merged d)
  show ?case
  proof (intro impI)
    assume cl: "classes = self_inheriting"
    show "queue = []"
    proof (cases queue)
      case Nil
      then show ?thesis .
    next
      case (Cons a rest)
      with step(2) have "loop classes (rest @ inheritedDefaultOptions (classes a))
          (object_spread merged (defaultOptions (classes a))) = Some d"
        by simp
      from step(1) [OF this] cl show ?thesis
        by (simp add: self_inheriting_def)
    qed
  qed
qed

lemma getDefaultOptions_cycle_diverges: "getDefaultOptions self_inheriting c = None"
proof (cases "getDefaultOptions self_inheriting c")
  case None
  then show ?thesis .
next
  case (Some d)
  then have "getDefaultOptions_loop self_inheriting [c] [] = Some d"
    by (simp add: getDefaultOptions_def)
  from getDefaultOptions_loop_cycle [OF this] show ?thesis by simp
qed

section \<open>Applying options\<close>

lemma source_graph_inheriting:
  "finite (source_graph inheriting c) \<and> acyclic (source_graph inheriting c)"
proof -
  have sub: "source_graph inheriting c \<subseteq> {(0, 1), (0, 2), (3, 1), (4, 0), (4, 3)}"
    by (auto simp: source_graph_def inherits_inheriting)
  have fin: "finite (source_graph inheriting c)"
    using sub by (rule finite_subset) simp
  have "({(0, 1), (0, 2), (3, 1), (4, 0), (4, 3)} :: (nat \<times> nat) set)\<inverse>
      \<subseteq> measure (\<lambda>n. if n = 4 then 2 else if n = 0 \<or> n = 3 then 1 else 0)"
    by auto
  then have "wf (({(0, 1), (0, 2), (3, 1), (4, 0), (4, 3)} :: (nat \<times> nat) set)\<inverse>)"
    by (rule wf_subset [OF wf_measure])
  then have "acyclic (({(0, 1), (0, 2), (3, 1), (4, 0), (4, 3)} :: (nat \<times> nat) set)\<inverse>)"
    by (rule wf_acyclic)
  then have "acyclic ({(0, 1), (0, 2), (3, 1), (4, 0), (4, 3)} :: (nat \<times> nat) set)"
    by (simp only: acyclic_converse)
  then have "acyclic (source_graph inheriting c)"
    using sub by (rule acyclic_subset)
  with fin show ?thesis by simp
qed

lemma distinct_set_prop: "distinct (map fst ps) \<Longrightarrow> distinct (map fst (set_prop ps k v))"
  by (induction ps k v rule: set_prop.induct) (auto simp: keys_set_prop)

lemma fresh_set_prop: "fresh_object ps \<Longrightarrow> fresh_object (set_prop ps k v)"
  using enumerable_set_prop [of ps k v] by (simp add: fresh_object_def distinct_set_prop)

lemma fresh_foldl_set_prop:
  "fresh_object ps \<Longrightarrow> fresh_object (foldl (\<lambda>acc (k, v). set_prop acc k v) ps kvs)"
  by (induction kvs arbitrary: ps) (auto simp: fresh_set_prop)

lemma fresh_spread_into: "fresh_object ps \<Longrightarrow> fresh_object (spread_into ps src)"
  by (simp add: spread_into_def fresh_foldl_set_prop)

lemma fresh_object_spread: "fresh_object (object_spread a b)"
proof -
  have "fresh_object []" by (simp add: fresh_object_def)
  then show ?thesis
    unfolding object_spread_def by (intro fresh_spread_into)
qed

lemma getDefaultOptions_loop_fresh:
  assumes "getDefaultOptions_loop classes queue merged = Some d"
  shows "fresh_object merged \<longrightarrow> fresh_object d"
  using assms
proof (induction rule: getDefaultOptions_loop.raw_induct [rotated, consumes 1, case_names step])
  case (step loop classes queue merged d)
  then show ?case
    by (cases queue) (auto simp: fresh_object_spread)
qed

lemma getDefaultOptions_fresh: "getDefaultOptions classes c = Some d \<Longrightarrow> fresh_object d"
  unfolding getDefaultOptions_def
  using getDefaultOptions_loop_fresh [of classes "[c]" "[]" d] by (simp add: fresh_object_def)


lemma own_value_foldl_set_prop:
  "own_value (foldl (\<lambda>acc (k, v). set_prop acc k v) tgt kvs) k =
     (case map_of (rev kvs) k of None \<Rightarrow> own_value tgt k | Some v \<Rightarrow> Some v)"
  by (induction kvs arbitrary: tgt)
    (auto simp: own_value_set_prop map_add_def split: option.splits)

lemma keys_foldl_set_prop:
  "fst ` set (foldl (\<lambda>acc (k, v). set_prop acc k v) tgt kvs) = fst ` set tgt \<union> fst ` set kvs"
proof (induction kvs arbitrary: tgt)
  case Nil
  show ?case by simp
next
  case (Cons kv kvs)
  obtain k v where kv: "kv = (k, v)" by (cases kv)
  have "fst ` set (foldl (\<lambda>acc (k, v). set_prop acc k v) (set_prop tgt k v) kvs)
      = insert k (fst ` set tgt) \<union> fst ` set kvs"
    by (simp only: Cons.IH keys_set_prop)
  then show ?case
    by (simp add: kv)
qed

lemma map_of_for_in:
  "distinct (map fst ps) \<Longrightarrow>
     map_of (for_in ps) k = (case map_of ps k of Some (e, v) \<Rightarrow> if e then Some v else None | None \<Rightarrow> None)"
proof (induction ps)
  case Nil
  show ?case by (simp add: for_in_def)
next
  case (Cons x ps)
  obtain k' e v where x: "x = (k', e, v)" by (cases x)
  from Cons.prems have d: "distinct (map fst ps)" and notin: "k' \<notin> fst ` set ps"
    by (simp_all add: x)
  have tail: "for_in ((k', e, v) # ps) = (if e then (k', v) # for_in ps else for_in ps)"
    by (simp add: for_in_def)
  have none: "map_of ps k' = None"
    using notin by (simp add: map_of_eq_None_iff)
  show ?case
    using Cons.IH [OF d] none by (auto simp: tail x)
qed

lemma own_keys_for_in: "own_keys ps = map fst (for_in ps)"
  by (induction ps) (auto simp: for_in_def own_keys_def)

lemma distinct_for_in: "distinct (map fst ps) \<Longrightarrow> distinct (map fst (for_in ps))"
  unfolding own_keys_for_in [symmetric] own_keys_def by (rule distinct_map_filter)

lemma own_value_spread_into:
  assumes "distinct (map fst src)"
  shows "own_value (spread_into tgt src) k =
           (if k \<in> set (own_keys src) then own_value src k else own_value tgt k)"
proof -
  have rev: "map_of (rev (for_in src)) = map_of (for_in src)"
    using distinct_for_in [OF assms]
    by (simp add: map_of_inject_set distinct_rev rev_map [symmetric])
  have folded: "own_value (spread_into tgt src) k =
      (case map_of (for_in src) k of None \<Rightarrow> own_value tgt k | Some v \<Rightarrow> Some v)"
    by (simp add: spread_into_def own_value_foldl_set_prop rev)
  have own: "k \<in> set (own_keys src) \<longleftrightarrow> map_of (for_in src) k \<noteq> None"
    by (simp add: own_keys_for_in map_of_eq_None_iff)
  show ?thesis
  proof (cases "map_of (for_in src) k")
    case None
    with folded own show ?thesis by simp
  next
    case (Some v)
    with map_of_for_in [OF assms, of k] have "map_of src k = Some (True, v)"
      by (auto split: option.splits if_splits)
    then have "own_value src k = Some v"
      by (simp add: own_value_def)
    with folded own Some show ?thesis by simp
  qed
qed

lemma hasOwnProperty_spread_into:
  "hasOwnProperty (spread_into tgt src) k = (hasOwnProperty tgt k \<or> k \<in> set (own_keys src))"
  by (simp add: hasOwnProperty_iff spread_into_def keys_foldl_set_prop own_keys_for_in)

lemma own_keys_fresh: "fresh_object ps \<Longrightarrow> k \<in> set (own_keys ps) \<longleftrightarrow> hasOwnProperty ps k"
  by (force simp: fresh_object_def own_keys_def hasOwnProperty_iff)

lemma call_hasOwnProperty_literal:
  "\<not> hasOwnProperty defaults ''hasOwnProperty'' \<Longrightarrow>
     call_hasOwnProperty call ObjectPrototype defaults k = Inr (hasOwnProperty defaults k)"
proof -
  assume "\<not> hasOwnProperty defaults ''hasOwnProperty''"
  then have "map_of defaults ''hasOwnProperty'' = None"
    unfolding hasOwnProperty_def by (rule notnotD)
  then have "lookup ObjectPrototype defaults ''hasOwnProperty'' = None"
    by (simp add: lookup_def)
  then show ?thesis
    by (rule call_hasOwnProperty_builtin) simp
qed

lemma validate_options_None:
  "\<not> hasOwnProperty defaults ''hasOwnProperty'' \<Longrightarrow>
     (\<forall>k \<in> set ks. hasOwnProperty defaults k) \<Longrightarrow> validate_options call defaults ks = None"
  by (induction ks) (auto simp: call_hasOwnProperty_literal)

lemma validate_options_Some:
  assumes lit: "\<not> hasOwnProperty defaults ''hasOwnProperty''"
  shows "\<exists>k \<in> set ks. \<not> hasOwnProperty defaults k \<Longrightarrow>
     \<exists>ks1 k ks2. ks = ks1 @ k # ks2 \<and> (\<forall>k' \<in> set ks1. hasOwnProperty defaults k')
        \<and> \<not> hasOwnProperty defaults k
        \<and> validate_options call defaults ks = Some (InvalidOptionError k)"
proof (induction ks)
  case Nil
  then show ?case by simp
next
  case (Cons a ks)
  show ?case
  proof (cases "hasOwnProperty defaults a")
    case False
    then have "a # ks = [] @ a # ks \<and> (\<forall>k' \<in> set []. hasOwnProperty defaults k')
        \<and> \<not> hasOwnProperty defaults a
        \<and> validate_options call defaults (a # ks) = Some (InvalidOptionError a)"
      by (simp add: call_hasOwnProperty_literal [OF lit])
    then show ?thesis by blast
  next
    case True
    with Cons.prems have "\<exists>k \<in> set ks. \<not> hasOwnProperty defaults k" by auto
    from Cons.IH [OF this] obtain ks1 k ks2 where
      "ks = ks1 @ k # ks2" "\<forall>k' \<in> set ks1. hasOwnProperty defaults k'"
      "\<not> hasOwnProperty defaults k"
      "validate_options call defaults ks = Some (InvalidOptionError k)"
      by blast
    with True have "a # ks = (a # ks1) @ k # ks2
        \<and> (\<forall>k' \<in> set (a # ks1). hasOwnProperty defaults k')
        \<and> \<not> hasOwnProperty defaults k
        \<and> validate_options call defaults (a # ks) = Some (InvalidOptionError k)"
      by (simp add: call_hasOwnProperty_literal [OF lit])
    then show ?thesis by blast
  qed
qed

lemma hasOwnProperty_Nil: "\<not> hasOwnProperty [] k"
  by (simp add: hasOwnProperty_def)

lemma own_value_absent: "\<not> hasOwnProperty ps k \<Longrightarrow> own_value ps k = None"
  by (simp add: hasOwnProperty_own_value)

lemma foldl_assign_plain:
  "''__proto__'' \<notin> fst ` set kvs \<Longrightarrow>
     foldl (\<lambda>d (k, v). assign (fst d) (snd d) k v) (p, ps) kvs
       = (p, foldl (\<lambda>acc (k, v). set_prop acc k v) ps kvs)"
proof (induction kvs arbitrary: ps)
  case Nil
  show ?case by simp
next
  case (Cons kv kvs)
  obtain k v where kv: "kv = (k, v)" by (cases kv)
  with Cons.prems have k: "k \<noteq> ''__proto__''" and rest: "''__proto__'' \<notin> fst ` set kvs"
    by auto
  show ?case
    using Cons.IH [OF rest, of "set_prop ps k v"] by (simp add: kv assign_plain [OF k])
qed

lemma copy_options_plain:
  "\<not> hasOwnProperty merged ''__proto__'' \<Longrightarrow>
     copy_options (p, ps) merged = (p, spread_into ps merged)"
proof -
  assume "\<not> hasOwnProperty merged ''__proto__''"
  then have "''__proto__'' \<notin> set (own_keys merged)"
    using own_keys_hasOwnProperty by blast
  then have "''__proto__'' \<notin> fst ` set (for_in merged)"
    by (simp add: own_keys_for_in)
  then show ?thesis
    by (simp add: copy_options_def spread_into_def foldl_assign_plain)
qed

text \<open>
  C7.  As stated the claim fails when the target is not a direct instance of the calling
  class: \<open>applyOptions\<close> returns at once, so an override key that is not among the
  defaults of the class raises nothing.
\<close>

theorem applyOptions_superclass_counterexample:
  "getDefaultOptions inheriting 1 = Some [(''k'', True, Num (Fin 1))]
   \<and> \<not> hasOwnProperty [(''k'', True, Num (Fin 1))] ''bad''
   \<and> applyOptions inheriting no_calls [(''bad'', True, Num (Fin 1))] (ClassPrototype ''Sub'') [] 1
       = Some ((ClassPrototype ''Sub'', []), None)"
  by (simp add: applyOptions_def getDefaultOptions_def getDefaultOptions_loop_Nil
      getDefaultOptions_loop_Cons inheriting_def object_spread_def spread_into_def for_in_def
      hasOwnProperty_def)

text \<open>
  C7, amended.  When the prototype of the target is the prototype of the calling class
  and the graph of inherited sources reachable from the class is finite and acyclic, the
  merge of the defaults returns, and, unless a default is named \<open>hasOwnProperty\<close>: if
  some override key is not among the merged defaults, \<open>applyOptions\<close> fails naming the
  first such key in enumeration order and leaves the target as it was; if all are, and
  no default is named \<open>__proto__\<close>, every key of the merged defaults is assigned on the
  target, with the override's value where there is one and the default otherwise, and
  no other property of the target changes, nor its prototype.
\<close>

theorem applyOptions_all_or_nothing:
  assumes proto: "destProto = prototype (classes callingClass)"
    and fin: "finite (source_graph classes callingClass)"
    and acyc: "acyclic (source_graph classes callingClass)"
    and wf: "distinct (map fst options)"
  shows "\<exists>defaults. getDefaultOptions classes callingClass = Some defaults
    \<and> (\<not> hasOwnProperty defaults ''hasOwnProperty'' \<longrightarrow>
        ((\<exists>k \<in> set (own_keys options). \<not> hasOwnProperty defaults k) \<longrightarrow>
          (\<exists>ks1 k ks2. own_keys options = ks1 @ k # ks2
             \<and> (\<forall>k' \<in> set ks1. hasOwnProperty defaults k') \<and> \<not> hasOwnProperty defaults k
             \<and> applyOptions classes call options destProto destObj callingClass
                 = Some ((destProto, destObj), Some (InvalidOptionError k))))
      \<and> ((\<forall>k \<in> set (own_keys options). hasOwnProperty defaults k)
            \<and> \<not> hasOwnProperty defaults ''__proto__'' \<longrightarrow>
          (\<exists>dest'. applyOptions classes call options destProto destObj callingClass
                 = Some ((destProto, dest'), None)
             \<and> (\<forall>k. hasOwnProperty defaults k \<longrightarrow>
                   own_value dest' k =
                       (if k \<in> set (own_keys options) then own_value options k
                        else own_value defaults k)
                   \<and> own_value dest' k \<noteq> None)
             \<and> (\<forall>k. \<not> hasOwnProperty defaults k \<longrightarrow>
                   own_value dest' k = own_value destObj k))))"
proof -
  have "wf ((source_graph classes callingClass)\<inverse>)"
    using fin acyc by (rule finite_acyclic_wf_converse)
  from getDefaultOptions_loop_returns [OF this, of "[callingClass]" "[]"]
  obtain defaults where defaults: "getDefaultOptions classes callingClass = Some defaults"
    by (auto simp: getDefaultOptions_def)
  have keys: "map fst (for_in options) = own_keys options"
    by (simp add: own_keys_for_in)
  have invalid: "\<exists>ks1 k ks2. own_keys options = ks1 @ k # ks2
             \<and> (\<forall>k' \<in> set ks1. hasOwnProperty defaults k') \<and> \<not> hasOwnProperty defaults k
             \<and> applyOptions classes call options destProto destObj callingClass
                 = Some ((destProto, destObj), Some (InvalidOptionError k))"
    if lit: "\<not> hasOwnProperty defaults ''hasOwnProperty''"
      and bad: "\<exists>k \<in> set (own_keys options). \<not> hasOwnProperty defaults k"
  proof -
    from validate_options_Some [OF lit bad, of call] obtain ks1 k ks2 where
      split: "own_keys options = ks1 @ k # ks2" "\<forall>k' \<in> set ks1. hasOwnProperty defaults k'"
        "\<not> hasOwnProperty defaults k"
      and err: "validate_options call defaults (own_keys options) = Some (InvalidOptionError k)"
      by blast
    have "applyOptions classes call options destProto destObj callingClass
        = Some ((destProto, destObj), Some (InvalidOptionError k))"
      by (simp add: applyOptions_def proto defaults keys err)
    with split show ?thesis by blast
  qed
  have applied: "\<exists>dest'. applyOptions classes call options destProto destObj callingClass
                 = Some ((destProto, dest'), None)
             \<and> (\<forall>k. hasOwnProperty defaults k \<longrightarrow>
                   own_value dest' k =
                       (if k \<in> set (own_keys options) then own_value options k
                        else own_value defaults k)
                   \<and> own_value dest' k \<noteq> None)
             \<and> (\<forall>k. \<not> hasOwnProperty defaults k \<longrightarrow>
                   own_value dest' k = own_value destObj k)"
    if lit: "\<not> hasOwnProperty defaults ''hasOwnProperty''"
      and valid: "\<forall>k \<in> set (own_keys options). hasOwnProperty defaults k"
      and noproto: "\<not> hasOwnProperty defaults ''__proto__''"
  proof -
    let ?m = "object_spread defaults options"
    let ?dest = "spread_into destObj ?m"
    have fresh_d: "fresh_object defaults"
      using defaults by (rule getDefaultOptions_fresh)
    have fresh_m: "fresh_object ?m"
      by (rule fresh_object_spread)
    have has_m: "hasOwnProperty ?m k = hasOwnProperty defaults k" for k
      using valid own_keys_fresh [OF fresh_d, of k]
      by (auto simp: object_spread_def hasOwnProperty_spread_into hasOwnProperty_Nil)
    have get_d: "own_value (spread_into [] defaults) k = own_value defaults k" for k
      using fresh_d own_keys_fresh [OF fresh_d, of k] own_value_absent [of defaults k]
        own_value_absent [of "[]" k]
      by (simp add: own_value_spread_into fresh_object_def hasOwnProperty_Nil)
    have get_m: "own_value ?m k =
        (if k \<in> set (own_keys options) then own_value options k else own_value defaults k)" for k
      by (simp add: object_spread_def own_value_spread_into [OF wf] get_d)
    have get_dest: "own_value ?dest k = (if hasOwnProperty defaults k then own_value ?m k
        else own_value destObj k)" for k
      using fresh_m own_keys_fresh [OF fresh_m, of k]
      by (simp add: own_value_spread_into fresh_object_def has_m)
    have has_dest: "hasOwnProperty defaults k \<Longrightarrow> own_value ?dest k \<noteq> None" for k
      using get_dest [of k] has_m [of k] by (simp add: hasOwnProperty_own_value)
    have "\<not> hasOwnProperty ?m ''__proto__''"
      using noproto by (simp add: has_m)
    then have copy: "copy_options (destProto, destObj) ?m = (destProto, ?dest)"
      by (rule copy_options_plain)
    have run: "applyOptions classes call options destProto destObj callingClass
        = Some ((destProto, ?dest), None)"
      unfolding applyOptions_def Let_def
      by (simp only: proto [symmetric] defaults keys validate_options_None [OF lit valid] copy
          simp_thms if_False option.case)
    show ?thesis
      using run get_dest has_dest get_m by (intro exI [of _ ?dest]) simp
  qed
  show ?thesis
    using defaults invalid applied by (intro exI [of _ defaults]) blast
qed

theorem applyOptions_all_or_nothing_witness:
  "applyOptions inheriting no_calls [(''bad'', True, Num (Fin 1))] (ClassPrototype ''A'') [] 1
     = Some ((ClassPrototype ''A'', []), Some (InvalidOptionError ''bad''))
   \<and> (\<exists>dest'. applyOptions inheriting no_calls [(''k'', True, Num (Fin 9))]
            (ClassPrototype ''A'') [] 1
          = Some ((ClassPrototype ''A'', dest'), None)
        \<and> own_value dest' ''k'' = Some (Num (Fin 9)))"
proof -
  let ?d = "[(''k'', True, Num (Fin 1))]"
  have proto: "ClassPrototype ''A'' = prototype (inheriting 1)"
    by (simp add: inheriting_def)
  have fin: "finite (source_graph inheriting 1)" and acyc: "acyclic (source_graph inheriting 1)"
    using source_graph_inheriting [of 1] by simp_all
  have merged: "getDefaultOptions inheriting 1 = Some ?d"
    by (simp add: getDefaultOptions_def getDefaultOptions_loop_Nil getDefaultOptions_loop_Cons
        inheriting_def object_spread_def spread_into_def for_in_def)
  have lit: "\<not> hasOwnProperty ?d ''hasOwnProperty''"
    and noproto: "\<not> hasOwnProperty ?d ''__proto__''"
    and has_k: "hasOwnProperty ?d ''k''"
    and no_bad: "\<not> hasOwnProperty ?d ''bad''"
    by (simp_all add: hasOwnProperty_def)
  from applyOptions_all_or_nothing [OF proto fin acyc, where call = no_calls
      and options = "[(''bad'', True, Num (Fin 1))]" and destObj = "[]"]
  obtain d1 where d1: "getDefaultOptions inheriting 1 = Some d1"
    and bad: "\<not> hasOwnProperty d1 ''hasOwnProperty'' \<longrightarrow>
        ((\<exists>k \<in> set (own_keys [(''bad'', True, Num (Fin 1))]). \<not> hasOwnProperty d1 k) \<longrightarrow>
          (\<exists>ks1 k ks2. own_keys [(''bad'', True, Num (Fin 1))] = ks1 @ k # ks2
             \<and> (\<forall>k' \<in> set ks1. hasOwnProperty d1 k') \<and> \<not> hasOwnProperty d1 k
             \<and> applyOptions inheriting no_calls [(''bad'', True, Num (Fin 1))]
                 (ClassPrototype ''A'') [] 1
                 = Some ((ClassPrototype ''A'', []), Some (InvalidOptionError k))))"
    by auto
  from d1 merged have "d1 = ?d" by simp
  with bad lit no_bad
  have a: "applyOptions inheriting no_calls [(''bad'', True, Num (Fin 1))] (ClassPrototype ''A'') [] 1
     = Some ((ClassPrototype ''A'', []), Some (InvalidOptionError ''bad''))"
    by (auto simp: own_keys_def Cons_eq_append_conv)
  from applyOptions_all_or_nothing [OF proto fin acyc, where call = no_calls
      and options = "[(''k'', True, Num (Fin 9))]" and destObj = "[]"]
  obtain d2 where d2: "getDefaultOptions inheriting 1 = Some d2"
    and good: "\<not> hasOwnProperty d2 ''hasOwnProperty'' \<longrightarrow>
        ((\<forall>k \<in> set (own_keys [(''k'', True, Num (Fin 9))]). hasOwnProperty d2 k)
            \<and> \<not> hasOwnProperty d2 ''__proto__'' \<longrightarrow>
          (\<exists>dest'. applyOptions inheriting no_calls [(''k'', True, Num (Fin 9))]
                 (ClassPrototype ''A'') [] 1
                 = Some ((ClassPrototype ''A'', dest'), None)
             \<and> (\<forall>k. hasOwnProperty d2 k \<longrightarrow>
                   own_value dest' k =
                       (if k \<in> set (own_keys [(''k'', True, Num (Fin 9))])
                        then own_value [(''k'', True, Num (Fin 9))] k
                        else own_value d2 k)
                   \<and> own_value dest' k \<noteq> None)
             \<and> (\<forall>k. \<not> hasOwnProperty d2 k \<longrightarrow> own_value dest' k = own_value [] k)))"
    by auto
  from d2 merged have "d2 = ?d" by simp
  with good lit noproto has_k
  have b: "\<exists>dest'. applyOptions inheriting no_calls [(''k'', True, Num (Fin 9))]
            (ClassPrototype ''A'') [] 1
          = Some ((ClassPrototype ''A'', dest'), None)
        \<and> own_value dest' ''k'' = Some (Num (Fin 9))"
    by (auto simp: own_keys_def own_value_def)
  from a b show ?thesis
    by (rule conjI)
qed

text \<open>
  Outside these conditions: a default named \<open>hasOwnProperty\<close> is what the validation
  calls, and a number there is the host's \<open>TypeError\<close>, whatever the override key; an
  override of a default named \<open>__proto__\<close> is assigned through the setter of
  \<open>Object.prototype\<close> and changes the prototype of the target.
\<close>

lemma validate_options_own_hasOwnProperty:
  "validate_options call [(''hasOwnProperty'', True, Num (Fin 1))] [k] = Some TypeError"
  by (simp add: call_hasOwnProperty_def lookup_def)

lemma copy_options_proto_key:
  "copy_options (ClassPrototype ''A'', []) [(''__proto__'', True, Null)] = (NullPrototype, [])"
  by (simp add: copy_options_def for_in_def assign_def lookup_def)

section \<open>Parsing a font\<close>

lemma split_space_not_Nil: "split_space s \<noteq> []"
  by (induction s) (auto split: list.splits)

lemma length_split_space:
  "length (split_space s) = Suc (length (filter (\<lambda>c. c = CHR '' '') s))"
proof (induction s)
  case Nil
  show ?case by simp
next
  case (Cons c cs)
  then show ?case
    using split_space_not_Nil [of cs] by (cases "split_space cs") auto
qed

lemma split_space_single:
  "split_space s = [w] \<Longrightarrow> s = w \<and> CHR '' '' \<notin> set w"
  by (induction s arbitrary: w) (auto simp: split_space_not_Nil split: if_splits list.splits)

lemma split_space_pair:
  "split_space s = [tok, fam] \<Longrightarrow>
     s = tok @ CHR '' '' # fam \<and> CHR '' '' \<notin> set tok \<and> CHR '' '' \<notin> set fam"
proof (induction s arbitrary: tok)
  case Nil
  then show ?case by simp
next
  case (Cons c cs)
  show ?case
  proof (cases "c = CHR '' ''")
    case True
    with Cons.prems have "tok = []" "split_space cs = [fam]" by simp_all
    with split_space_single [of cs fam] True show ?thesis by simp
  next
    case False
    with Cons.prems obtain w where "tok = c # w" "split_space cs = [w, fam]"
      by (auto split: list.splits)
    with Cons.IH [of w] False show ?thesis by simp
  qed
qed

text \<open>
  C8.  As stated the claim fails: \<open>"16px  Arial"\<close>, with two spaces, has exactly two
  tokens separated by white space, and \<open>parseFont\<close> fails on it, because it splits at
  every single space.
\<close>

theorem parseFont_double_space_counterexample:
  "whitespace_tokens ''16px  Arial'' = [''16px'', ''Arial'']
   \<and> parseFont host_parseFloat host_toString ''16px  Arial''
       = Inl (InvalidFormatError ''16px  Arial'')"
  by code_simp

text \<open>
  C8, amended.  For every \<open>parseFloat\<close> and \<open>toString\<close>: \<open>parseFont\<close> fails, with the
  invalid-format error, exactly when its input does not contain exactly one space
  character; otherwise the input is \<open>tok\<close>, a space and \<open>fam\<close>, and the result has the
  size \<open>parseFloat tok\<close> and the family \<open>fam\<close>.  So \<open>"16px Arial"\<close> gives size \<open>16\<close>,
  unit \<open>"px"\<close>, family \<open>"Arial"\<close>, and \<open>"bad"\<close> fails.
\<close>

theorem parseFont_single_space:
  "(\<exists>e. parseFont pf ts str = Inl e) = (length (filter (\<lambda>c. c = CHR '' '') str) \<noteq> 1)
   \<and> (length (filter (\<lambda>c. c = CHR '' '') str) \<noteq> 1 \<longrightarrow>
        parseFont pf ts str = Inl (InvalidFormatError str))
   \<and> (length (filter (\<lambda>c. c = CHR '' '') str) = 1 \<longrightarrow>
        (\<exists>tok fam font. str = tok @ CHR '' '' # fam
           \<and> CHR '' '' \<notin> set tok \<and> CHR '' '' \<notin> set fam
           \<and> parseFont pf ts str = Inr font
           \<and> size_num font = pf tok \<and> family font = fam))
   \<and> (pf ''16px'' = Fin 16 \<and> ts (Fin 16) = ''16'' \<longrightarrow>
        parseFont pf ts ''16px Arial''
          = Inr \<lparr>size_num = Fin 16, family = ''Arial'', sizeUnit = ''px''\<rparr>)
   \<and> parseFont pf ts ''bad'' = Inl (InvalidFormatError ''bad'')"
proof -
  let ?n = "length (filter (\<lambda>c. c = CHR '' '') str)"
  have len: "length (split_space str) \<noteq> 2 \<longleftrightarrow> ?n \<noteq> 1"
    by (simp add: length_split_space)
  have fail: "parseFont pf ts str = Inl (InvalidFormatError str)" if "?n \<noteq> 1"
    using that len by (simp add: parseFont_def)
  have ok: "\<exists>tok fam font. str = tok @ CHR '' '' # fam
           \<and> CHR '' '' \<notin> set tok \<and> CHR '' '' \<notin> set fam
           \<and> parseFont pf ts str = Inr font
           \<and> size_num font = pf tok \<and> family font = fam"
    if "?n = 1"
  proof -
    from that have l2: "length (split_space str) = 2"
      by (simp add: length_split_space)
    then obtain tok fam where sp: "split_space str = [tok, fam]"
      by (cases "split_space str"; cases "tl (split_space str)") auto
    have run: "parseFont pf ts str
               = Inr \<lparr>size_num = pf tok, family = fam,
                       sizeUnit = drop (length (ts (pf tok))) tok\<rparr>"
      by (simp add: parseFont_def sp Let_def)
    have "size_num \<lparr>size_num = pf tok, family = fam,
                    sizeUnit = drop (length (ts (pf tok))) tok\<rparr> = pf tok
        \<and> family \<lparr>size_num = pf tok, family = fam,
                    sizeUnit = drop (length (ts (pf tok))) tok\<rparr> = fam"
      by simp
    with split_space_pair [OF sp] run show ?thesis by blast
  qed
  have iff: "(\<exists>e. parseFont pf ts str = Inl e) = (?n \<noteq> 1)"
    using fail ok by (cases "?n = 1") auto
  have px: "parseFont pf ts ''16px Arial''
          = Inr \<lparr>size_num = Fin 16, family = ''Arial'', sizeUnit = ''px''\<rparr>"
    if "pf ''16px'' = Fin 16 \<and> ts (Fin 16) = ''16''"
    using that by (simp add: parseFont_def Let_def)
  have bad: "parseFont pf ts ''bad'' = Inl (InvalidFormatError ''bad'')"
    by (simp add: parseFont_def)
  show ?thesis
    using iff fail ok px bad by blast
qed

theorem parseFont_single_space_witness:
  "parseFont host_parseFloat host_toString ''16px Arial''
     = Inr \<lparr>size_num = Fin 16, family = ''Arial'', sizeUnit = ''px''\<rparr>
   \<and> parseFont host_parseFloat host_toString ''bad'' = Inl (InvalidFormatError ''bad'')"
proof -
  have pf: "host_parseFloat ''16px'' = Fin 16"
    by code_simp
  have ts: "host_toString (Fin 16) = ''16''"
    by code_simp
  note font = parseFont_single_space [where pf = host_parseFloat and ts = host_toString
      and str = "''16px Arial''"]
  from font pf ts show ?thesis
    by blast
qed

text \<open>
  The unit is the first piece without as many characters as the printed size has:
  for \<open>"16.0px Arial"\<close> the size is \<open>16\<close>, printed \<open>"16"\<close>, and the unit is \<open>".0px"\<close>.
\<close>

lemma parseFont_unit_printed_length:
  "parseFont host_parseFloat host_toString ''16.0px Arial''
     = Inr \<lparr>size_num = Fin 16, family = ''Arial'', sizeUnit = ''.0px''\<rparr>"
  by code_simp


end
